theory Spec2Isabelle
  imports Main "HOL-Library.Sublist" "HOL-Library.Char_ord" "HOL-Library.List_Lexorder"
    "HOL-Library.Multiset"
begin

section \<open>Python strings and lists\<close>

text \<open>
  A Python \<^verbatim>\<open>str\<close> is modelled as a \<^typ>\<open>string\<close>, one \<^typ>\<open>char\<close> per character
  (the scripts are ASCII command lines). The functions below follow the documented
  behaviour of the built-in methods that \<^verbatim>\<open>integration_testing.py\<close> calls.
\<close>

definition newline :: char where
  "newline = CHR 0x0A"

text \<open>\<^verbatim>\<open>sub in s\<close> on strings: \<^verbatim>\<open>sub\<close> occurs in \<^verbatim>\<open>s\<close> as a contiguous substring.\<close>

fun py_in :: "string \<Rightarrow> string \<Rightarrow> bool" where
  "py_in sub [] = (sub = [])"
| "py_in sub (c # cs) = (prefix sub (c # cs) \<or> py_in sub cs)"

text \<open>
  \<^verbatim>\<open>s.replace(old, new)\<close>: a scan from the left that replaces each occurrence found and
  resumes behind it (occurrences never overlap). For an empty \<^verbatim>\<open>old\<close>, Python inserts
  \<^verbatim>\<open>new\<close> before every character and at the end.
\<close>

function replace_from :: "string \<Rightarrow> string \<Rightarrow> string \<Rightarrow> string" where
  "replace_from old new [] = []"
| "replace_from old new (c # cs) =
     (if old \<noteq> [] \<and> prefix old (c # cs)
      then new @ replace_from old new (drop (length old) (c # cs))
      else c # replace_from old new cs)"
  by pat_completeness auto
termination
  by (relation "measure (\<lambda>(old, new, s). length s)") auto

definition py_replace :: "string \<Rightarrow> string \<Rightarrow> string \<Rightarrow> string" where
  "py_replace s old new =
     (if old = [] then new @ concat (map (\<lambda>c. c # new) s) else replace_from old new s)"

text \<open>
  \<^verbatim>\<open>s.strip(chars)\<close> and \<^verbatim>\<open>s.rstrip()\<close>. The whitespace characters are those of
  \<^verbatim>\<open>str.isspace\<close> among the code points below 256.
\<close>

definition py_strip :: "string \<Rightarrow> string \<Rightarrow> string" where
  "py_strip chars s =
     rev (dropWhile (\<lambda>c. c \<in> set chars) (rev (dropWhile (\<lambda>c. c \<in> set chars) s)))"

definition is_space :: "char \<Rightarrow> bool" where
  "is_space c = (c \<in> set [CHR 0x09, CHR 0x0A, CHR 0x0B, CHR 0x0C, CHR 0x0D,
                           CHR 0x1C, CHR 0x1D, CHR 0x1E, CHR 0x1F, CHR 0x20,
                           CHR 0x85, CHR 0xA0])"

definition py_rstrip :: "string \<Rightarrow> string" where
  "py_rstrip s = rev (dropWhile is_space (rev s))"

text \<open>\<^verbatim>\<open>s.split()\<close>: the maximal runs of non-whitespace characters.\<close>

fun split_ws :: "string \<Rightarrow> string \<Rightarrow> string list" where
  "split_ws cur [] = (if cur = [] then [] else [cur])"
| "split_ws cur (c # cs) =
     (if is_space c then (if cur = [] then split_ws [] cs else cur # split_ws [] cs)
      else split_ws (cur @ [c]) cs)"

definition py_split_ws :: "string \<Rightarrow> string list" where
  "py_split_ws s = split_ws [] s"

text \<open>
  \<^verbatim>\<open>s.split(sep)\<close> for a non-empty separator (the source only splits on the constants
  \<^verbatim>\<open>"export "\<close>, \<^verbatim>\<open>"/"\<close> and \<^verbatim>\<open>"_"\<close>).
\<close>

function split_on :: "string \<Rightarrow> string \<Rightarrow> string \<Rightarrow> string list" where
  "split_on sep cur [] = [cur]"
| "split_on sep cur (c # cs) =
     (if sep \<noteq> [] \<and> prefix sep (c # cs)
      then cur # split_on sep [] (drop (length sep) (c # cs))
      else split_on sep (cur @ [c]) cs)"
  by pat_completeness auto
termination
  by (relation "measure (\<lambda>(sep, cur, s). length s)") auto

definition py_split :: "string \<Rightarrow> string \<Rightarrow> string list" where
  "py_split sep s = split_on sep [] s"

text \<open>\<^verbatim>\<open>sep.join(xs)\<close>.\<close>

fun py_join :: "string \<Rightarrow> string list \<Rightarrow> string" where
  "py_join sep [] = []"
| "py_join sep [x] = x"
| "py_join sep (x # y # ys) = x @ sep @ py_join sep (y # ys)"

text \<open>\<^verbatim>\<open>s * n\<close> for an integer \<^verbatim>\<open>n\<close>: the empty string when \<^verbatim>\<open>n\<close> is not positive.\<close>

definition py_mul :: "string \<Rightarrow> int \<Rightarrow> string" where
  "py_mul s n = concat (replicate (nat n) s)"

text \<open>\<^verbatim>\<open>str(i)\<close> for a non-negative integer: its decimal digits.\<close>

definition digit_char :: "nat \<Rightarrow> char" where
  "digit_char d = ''0123456789'' ! d"

function str_nat :: "nat \<Rightarrow> string" where
  "str_nat n = (if n < 10 then [digit_char n] else str_nat (n div 10) @ [digit_char (n mod 10)])"
  by pat_completeness auto
termination
  by (relation "measure id") auto

declare str_nat.simps [simp del]

section \<open>Exceptions\<close>

text \<open>
  A raised exception: its class name, its message (\<^verbatim>\<open>str(e)\<close>) and whether it is an
  instance of \<^verbatim>\<open>Exception\<close>. \<^verbatim>\<open>except Exception\<close> in \<^verbatim>\<open>run_test_files\<close> catches
  only those; \<^verbatim>\<open>SystemExit\<close> or \<^verbatim>\<open>KeyboardInterrupt\<close> pass through it.
\<close>

datatype py_exc = PyExc (exc_class: string) (exc_detail: string) (exc_is_Exception: bool)

definition IndexError :: py_exc where
  "IndexError = PyExc ''IndexError'' ''list index out of range'' True"

fun map_result :: "('a \<Rightarrow> py_exc + 'b) \<Rightarrow> 'a list \<Rightarrow> py_exc + 'b list" where
  "map_result f [] = Inr []"
| "map_result f (x # xs) =
     (case f x of
        Inl e \<Rightarrow> Inl e
      | Inr y \<Rightarrow> (case map_result f xs of Inl e \<Rightarrow> Inl e | Inr ys \<Rightarrow> Inr (y # ys)))"

section \<open>Paths\<close>

text \<open>
  \<^verbatim>\<open>pathlib.Path\<close> on a POSIX system. A path is modelled by its \<^verbatim>\<open>parts\<close> tuple: the
  root, if the path has one (\<^verbatim>\<open>"/"\<close>, or \<^verbatim>\<open>"//"\<close> for exactly two leading slashes;
  three or more collapse to one), followed by the components. Empty components and
  \<^verbatim>\<open>"."\<close> are dropped when a string is parsed. Two paths are equal when their parts
  are, and they are ordered as their parts are (lists of strings, compared
  lexicographically). Joining with an absolute path gives that path.
\<close>

type_synonym py_path = "string list"

definition path_root :: "string \<Rightarrow> string" where
  "path_root s =
     (if prefix ''//'' s \<and> \<not> prefix ''///'' s then ''//''
      else if prefix ''/'' s then ''/'' else [])"

definition Path_of :: "string \<Rightarrow> py_path" where
  "Path_of s =
     (if path_root s = [] then [] else [path_root s])
       @ filter (\<lambda>p. p \<noteq> [] \<and> p \<noteq> ''.'') (py_split ''/'' s)"

definition is_absolute :: "py_path \<Rightarrow> bool" where
  "is_absolute p = (case p of [] \<Rightarrow> False | r # _ \<Rightarrow> r = ''/'' \<or> r = ''//'')"

definition path_str :: "py_path \<Rightarrow> string" where
  "path_str p =
     (case p of
        [] \<Rightarrow> ''.''
      | r # ps \<Rightarrow> if is_absolute p then r @ py_join ''/'' ps else py_join ''/'' p)"

definition path_join :: "py_path \<Rightarrow> string \<Rightarrow> py_path" where
  "path_join p s = (let q = Path_of s in if is_absolute q then q else p @ q)"

section \<open>The environment of the harness\<close>

text \<open>
  What \<^verbatim>\<open>integration_testing.py\<close> imports or reaches through the operating system is a
  parameter of the model: the two directory constants of
  \<^verbatim>\<open>openbb_terminal.core.config.paths\<close>, the helpers \<^verbatim>\<open>is_reset\<close>,
  \<^verbatim>\<open>suppress_stdout\<close>, \<^verbatim>\<open>replace_dynamic\<close>, \<^verbatim>\<open>insert_start_slash\<close> and the
  interpreter \<^verbatim>\<open>terminal\<close> (none of them in this file), the file system, the clock,
  the traceback module, the formatting of floating-point numbers and the order in which
  a \<^verbatim>\<open>set\<close> of strings is iterated (\<^term>\<open>set_iter env xs\<close> lists the set of the elements
  of \<open>xs\<close>). \<^typ>\<open>'w\<close> is the state of the world
  outside the harness; an operation that can raise returns \<^term>\<open>Inl\<close> of the exception.
\<close>

record frame =
  frame_filename :: string
  frame_lineno :: nat
  frame_name :: string
  frame_line :: string

record ('w, 't) env =
  MISCELLANEOUS_DIRECTORY :: py_path
  REPOSITORY_DIRECTORY :: py_path
  is_reset :: "string \<Rightarrow> bool"
  replace_dynamic :: "string \<Rightarrow> (string \<times> string) list \<Rightarrow> py_exc + string"
  insert_start_slash :: "string list \<Rightarrow> string list"
  terminal :: "string list option \<Rightarrow> bool \<Rightarrow> 'w \<Rightarrow> py_exc option \<times> 'w"
  suppress_enter :: "'w \<Rightarrow> 'w"
  suppress_exit :: "'w \<Rightarrow> 'w"
  path_exists :: "'w \<Rightarrow> string \<Rightarrow> bool"
  path_is_file :: "'w \<Rightarrow> string \<Rightarrow> bool"
  path_is_dir :: "'w \<Rightarrow> string \<Rightarrow> bool"
  os_walk :: "'w \<Rightarrow> string \<Rightarrow> (string \<times> string list \<times> string list) list"
  path_open :: "'w \<Rightarrow> string \<Rightarrow> py_exc + string list"
  mkdir :: "string \<Rightarrow> 'w \<Rightarrow> py_exc + 'w"
  capture_open :: "string \<Rightarrow> 'w \<Rightarrow> py_exc + 'w"
  capture_close :: "'w \<Rightarrow> 'w"
  timestamp_str :: "'w \<Rightarrow> string"
  time_time :: "'w \<Rightarrow> 't"
  time_sub :: "'t \<Rightarrow> 't \<Rightarrow> 't"
  setenv :: "string \<Rightarrow> string \<Rightarrow> 'w \<Rightarrow> 'w"
  extract_tb :: "py_exc \<Rightarrow> frame list"
  format_list :: "frame list \<Rightarrow> string list"
  format_percent :: "nat \<Rightarrow> nat \<Rightarrow> string"
  format_2f :: "'t \<Rightarrow> string"
  set_iter :: "string list \<Rightarrow> string list"

text \<open>
  What the harness itself prints with \<^verbatim>\<open>console.print(text, end=..., style=...)\<close>, in
  order, next to the state of the world.
\<close>

datatype printed = Printed (p_text: string) (p_end: string) (p_style: string)

record 'w st =
  world :: 'w
  console :: "printed list"

definition console_print :: "string \<Rightarrow> string \<Rightarrow> 'w st \<Rightarrow> 'w st" where
  "console_print txt style s = s\<lparr>console := console s @ [Printed txt [newline] style]\<rparr>"

section \<open>\<^verbatim>\<open>run_scripts\<close>\<close>

subsection \<open>Input preprocessing (lines 167-171)\<close>

definition rs_raw_lines :: "(string \<Rightarrow> bool) \<Rightarrow> string list \<Rightarrow> string list" where
  "rs_raw_lines reset fp =
     (let raw_lines = filter (\<lambda>x. \<not> reset x \<and> \<not> py_in ''#'' x \<and> x \<noteq> []) fp
      in map (py_strip [newline]) (filter (\<lambda>raw_line. py_strip [newline] raw_line \<noteq> []) raw_lines))"

subsection \<open>Positional arguments (lines 173-179)\<close>

definition argv_token :: "nat \<Rightarrow> string" where
  "argv_token i = ''$ARGV['' @ str_nat i @ '']''"

text \<open>The token without its first character.\<close>

definition token_body :: "nat \<Rightarrow> string" where
  "token_body k = ''ARGV['' @ str_nat k @ '']''"

text \<open>The loop over \<^verbatim>\<open>enumerate(routines_args)\<close>, from index \<open>i\<close> on.\<close>

fun argv_subst :: "nat \<Rightarrow> string list \<Rightarrow> string \<Rightarrow> string" where
  "argv_subst i [] templine = templine"
| "argv_subst i (arg # args) templine =
     argv_subst (Suc i) args (py_replace templine (argv_token i) arg)"

subsection \<open>Named placeholders (lines 181-189)\<close>

text \<open>
  The pattern \<^verbatim>\<open>\${[^{]+=[^{]+}\<close> as Python's backtracking matcher runs it at one
  position: after \<^verbatim>\<open>${\<close>, the first \<^verbatim>\<open>[^{]+\<close> takes as many characters other than
  \<^verbatim>\<open>{\<close> as it can and gives them back one at a time until \<^verbatim>\<open>=\<close> follows; the second
  does the same until \<^verbatim>\<open>}\<close> follows. \<open>run\<close> is the text up to the next \<^verbatim>\<open>{\<close>.
  \<^term>\<open>try_default run start n\<close>: the second group starts at \<open>start\<close> and is tried with
  \<open>n\<close>, \<open>n - 1\<close>, ..., 1 characters. \<^term>\<open>try_key run m\<close>: the first group is tried with
  \<open>m\<close>, \<open>m - 1\<close>, ..., 1 characters. The result is the lengths of the two groups.
\<close>

fun try_default :: "string \<Rightarrow> nat \<Rightarrow> nat \<Rightarrow> nat option" where
  "try_default run start 0 = None"
| "try_default run start (Suc n) =
     (if start + Suc n < length run \<and> run ! (start + Suc n) = CHR ''}'' then Some (Suc n)
      else try_default run start n)"

fun try_key :: "string \<Rightarrow> nat \<Rightarrow> (nat \<times> nat) option" where
  "try_key run 0 = None"
| "try_key run (Suc m) =
     (if Suc m < length run \<and> run ! Suc m = CHR ''=''
      then (case try_default run (Suc (Suc m)) (length run - Suc (Suc m)) of
              Some n \<Rightarrow> Some (Suc m, n)
            | None \<Rightarrow> try_key run m)
      else try_key run m)"

definition ph_match :: "string \<Rightarrow> (nat \<times> nat) option" where
  "ph_match s =
     (case s of
        c1 # c2 # r \<Rightarrow>
          if c1 = CHR ''$'' \<and> c2 = CHR ''{''
          then (let run = takeWhile (\<lambda>c. c \<noteq> CHR ''{'') r in try_key run (length run))
          else None
      | _ \<Rightarrow> None)"

text \<open>
  \<^verbatim>\<open>re.sub(pattern, repl, line)\<close> with a function \<open>repl\<close> of the matched text: matches
  are looked for from the left, a match of groups \<open>m\<close> and \<open>n\<close> is \<open>m + n + 4\<close>
  characters long, and the search resumes behind it.
\<close>

function re_sub :: "(string \<Rightarrow> py_exc + string) \<Rightarrow> string \<Rightarrow> py_exc + string" where
  "re_sub repl [] = Inr []"
| "re_sub repl (c # cs) =
     (case ph_match (c # cs) of
        Some (m, n) \<Rightarrow>
          (case repl (take (m + n + 4) (c # cs)) of
             Inl e \<Rightarrow> Inl e
           | Inr r \<Rightarrow>
               (case re_sub repl (drop (m + n + 4) (c # cs)) of
                  Inl e \<Rightarrow> Inl e
                | Inr rest \<Rightarrow> Inr (r @ rest)))
      | None \<Rightarrow> (case re_sub repl cs of Inl e \<Rightarrow> Inl e | Inr rest \<Rightarrow> Inr (c # rest)))"
  by pat_completeness auto
termination
  by (relation "measure (\<lambda>(repl, s). length s)") auto

subsection \<open>Resolving the lines (lines 173-192)\<close>

definition rs_lines ::
  "(string \<Rightarrow> (string \<times> string) list \<Rightarrow> py_exc + string) \<Rightarrow> string list option \<Rightarrow>
   (string \<times> string) list option \<Rightarrow> string list \<Rightarrow> py_exc + string list" where
  "rs_lines rd routines_args special_arguments raw_lines =
     (case routines_args of
        Some (a # as) \<Rightarrow> Inr (map (argv_subst 0 (a # as)) raw_lines)
      | _ \<Rightarrow>
        (case special_arguments of
           Some (kv # kvs) \<Rightarrow> map_result (re_sub (\<lambda>x. rd x (kv # kvs))) raw_lines
         | _ \<Rightarrow> Inr raw_lines))"

subsection \<open>The exit line (lines 194-195)\<close>

definition rs_append_exit :: "bool \<Rightarrow> string list \<Rightarrow> py_exc + string list" where
  "rs_append_exit test_mode lines =
     (if test_mode
      then (if lines = [] then Inl IndexError
            else if \<not> py_in ''exit'' (last lines) then Inr (lines @ [''exit''])
            else Inr lines)
      else Inr lines)"

subsection \<open>The export line (lines 197-200)\<close>

definition rs_export :: "string list \<Rightarrow> py_exc + (string \<times> string list)" where
  "rs_export lines =
     (case lines of
        [] \<Rightarrow> Inl IndexError
      | l0 # rest \<Rightarrow>
          if py_in ''export'' l0
          then (case py_split ''export '' l0 of
                  _ # folder # _ \<Rightarrow> Inr (py_rstrip folder, rest)
                | _ \<Rightarrow> Inl IndexError)
          else Inr ([], lines))"

subsection \<open>The command path (lines 202-208)\<close>

definition rs_file_cmds :: "(string list \<Rightarrow> string list) \<Rightarrow> string \<Rightarrow> string list \<Rightarrow> string list" where
  "rs_file_cmds iss export_folder lines =
     (let simulate_argv = ''/'' @ py_join ''/'' (map py_rstrip lines);
          file_cmds = py_split_ws (py_replace simulate_argv ''//'' ''/home/'');
          file_cmds = (if file_cmds \<noteq> [] then iss file_cmds else file_cmds)
      in if export_folder \<noteq> [] then [''export '' @ export_folder @ py_join '' '' file_cmds]
         else [py_join '' '' file_cmds])"

definition rs_translate ::
  "(string list \<Rightarrow> string list) \<Rightarrow> bool \<Rightarrow> string list \<Rightarrow> py_exc + string list" where
  "rs_translate iss test_mode lines =
     (case rs_append_exit test_mode lines of
        Inl e \<Rightarrow> Inl e
      | Inr lines1 \<Rightarrow>
          (case rs_export lines1 of
             Inl e \<Rightarrow> Inl e
           | Inr (export_folder, lines2) \<Rightarrow> Inr (rs_file_cmds iss export_folder lines2)))"

subsection \<open>Replaying the commands (lines 210-227)\<close>

text \<open>
  With output capture, the order of the source is kept: the time stamp is read, the
  output directory is made, the first command is taken from the command path
  (\<^verbatim>\<open>file_cmds[0].split("/")[1]\<close>, an \<^verbatim>\<open>IndexError\<close> without a second piece), the
  capture file is opened, the interpreter runs. Leaving \<^verbatim>\<open>suppress_stdout\<close> and the
  capture restores the output also when an exception passes.
\<close>

definition rs_replay ::
  "('w, 't) env \<Rightarrow> bool \<Rightarrow> bool \<Rightarrow> bool \<Rightarrow> string list \<Rightarrow> 'w \<Rightarrow> py_exc option \<times> 'w" where
  "rs_replay env test_mode verbose output file_cmds w =
     (if \<not> test_mode \<or> verbose then terminal env (Some file_cmds) True w
      else
        (let w1 = suppress_enter env w in
         if output then
           (let stamp_str = py_replace (timestamp_str env w1) ''.'' [];
                whole_path = path_join (REPOSITORY_DIRECTORY env) ''integration_test_output''
            in case mkdir env (path_str whole_path) w1 of
                 Inl e \<Rightarrow> (Some e, suppress_exit env w1)
               | Inr w2 \<Rightarrow>
                  (case file_cmds of
                     [] \<Rightarrow> (Some IndexError, suppress_exit env w2)
                   | cmd0 # _ \<Rightarrow>
                      (case py_split ''/'' cmd0 of
                         _ # first_cmd # _ \<Rightarrow>
                           (case capture_open env
                                   (path_str (path_join whole_path
                                      (stamp_str @ ''_'' @ first_cmd @ ''_output.txt''))) w2 of
                              Inl e \<Rightarrow> (Some e, suppress_exit env w2)
                            | Inr w3 \<Rightarrow>
                                (case terminal env (Some file_cmds) True w3 of
                                   (r, w4) \<Rightarrow> (r, suppress_exit env (capture_close env w4))))
                       | _ \<Rightarrow> (Some IndexError, suppress_exit env w2))))
         else (case terminal env (Some file_cmds) True w1 of
                 (r, w2) \<Rightarrow> (r, suppress_exit env w2))))"

subsection \<open>The whole function (lines 136-227)\<close>

text \<open>The result is the exception that leaves \<^verbatim>\<open>run_scripts\<close>, if any, and the new state.\<close>

definition run_scripts ::
  "('w, 't) env \<Rightarrow> py_path \<Rightarrow> bool \<Rightarrow> bool \<Rightarrow> string list option \<Rightarrow>
   (string \<times> string) list option \<Rightarrow> bool \<Rightarrow> 'w st \<Rightarrow> py_exc option \<times> 'w st" where
  "run_scripts env path test_mode verbose routines_args special_arguments output s =
     (let missing = \<not> path_exists env (world s) (path_str path);
          s1 = (if missing
                then console_print (''File '' @ [CHR 0x27] @ path_str path @ [CHR 0x27]
                        @ '' doesn'' @ [CHR 0x27] @ ''t exist. Launching base terminal.''
                        @ [newline]) [] s
                else s)
      in case (if missing \<and> \<not> test_mode
               then (case terminal env None False (world s1) of (r, w) \<Rightarrow> (r, s1\<lparr>world := w\<rparr>))
               else (None, s1)) of
           (Some e, s2) \<Rightarrow> (Some e, s2)
         | (None, s2) \<Rightarrow>
            (case path_open env (world s2) (path_str path) of
               Inl e \<Rightarrow> (Some e, s2)
             | Inr fp \<Rightarrow>
                (case rs_lines (replace_dynamic env) routines_args special_arguments
                        (rs_raw_lines (is_reset env) fp) of
                   Inl e \<Rightarrow> (Some e, s2)
                 | Inr lines \<Rightarrow>
                    (case rs_translate (insert_start_slash env) test_mode lines of
                       Inl e \<Rightarrow> (Some e, s2)
                     | Inr file_cmds \<Rightarrow>
                        (case rs_replay env test_mode verbose output file_cmds (world s2) of
                           (r, w) \<Rightarrow> (r, s2\<lparr>world := w\<rparr>))))))"

section \<open>\<^verbatim>\<open>run_test_files\<close>\<close>

definition LENGTH :: int where
  "LENGTH = 90"

text \<open>
  The \<^verbatim>\<open>fails\<close> dictionary keeps its keys in the order of their first insertion; a
  second assignment to a key replaces the value where it stands.
\<close>

record failure_record =
  fr_exception :: py_exc
  fr_traceback :: "frame list"

fun dict_set :: "('k \<times> 'v) list \<Rightarrow> 'k \<Rightarrow> 'v \<Rightarrow> ('k \<times> 'v) list" where
  "dict_set [] k v = [(k, v)]"
| "dict_set ((k', v') # kvs) k v = (if k' = k then (k, v) # kvs else (k', v') # dict_set kvs k v)"

text \<open>Lines 258-259: the name of a script in the progress lines and in \<^verbatim>\<open>fails\<close>.\<close>

definition file_short_name :: "py_path \<Rightarrow> py_path \<Rightarrow> string" where
  "file_short_name misc file = drop 1 (py_replace (path_str file) (path_str misc) [])"

text \<open>Lines 279-285: the progress line of the script at index \<open>i\<close> of \<open>n\<close>.\<close>

definition progress_line :: "('w, 't) env \<Rightarrow> nat \<Rightarrow> nat \<Rightarrow> string \<Rightarrow> nat \<Rightarrow> printed" where
  "progress_line env i n short_name FAILURES =
     (let percentage = format_percent env (i + 1) n;
          percentage_with_spaces =
            ''['' @ py_mul '' '' (4 - int (length percentage)) @ percentage @ '']'';
          spacing = LENGTH - int (length short_name) - int (length percentage_with_spaces)
      in Printed (short_name @ py_mul '' '' spacing @ percentage_with_spaces) [newline]
           (if FAILURES = 0 then ''green'' else ''red''))"

record 'w batch =
  SUCCESSES :: nat
  FAILURES :: nat
  fails :: "(string \<times> failure_record) list"
  state :: "'w st"

text \<open>
  The loop of lines 256-285 from index \<open>i\<close> on. An exception that is not an
  \<^verbatim>\<open>Exception\<close> is not caught and ends the loop: the result is then \<^term>\<open>Inl\<close> of it
  and of the state reached.
\<close>

fun run_test_loop ::
  "('w, 't) env \<Rightarrow> bool \<Rightarrow> (string \<times> string) list \<Rightarrow> nat \<Rightarrow> nat \<Rightarrow> py_path list \<Rightarrow>
   'w batch \<Rightarrow> (py_exc \<times> 'w st) + 'w batch" where
  "run_test_loop env verbose special_arguments n i [] b = Inr b"
| "run_test_loop env verbose special_arguments n i (file # rest) b =
     (let short_name = file_short_name (MISCELLANEOUS_DIRECTORY env) file
      in case run_scripts env file True verbose None (Some special_arguments) True (state b) of
           (None, s1) \<Rightarrow>
             run_test_loop env verbose special_arguments n (Suc i) rest
               (b\<lparr>SUCCESSES := SUCCESSES b + 1,
                   state := s1\<lparr>console := console s1
                              @ [progress_line env i n short_name (FAILURES b)]\<rparr>\<rparr>)
         | (Some e, s1) \<Rightarrow>
             if exc_is_Exception e
             then run_test_loop env verbose special_arguments n (Suc i) rest
               (b\<lparr>FAILURES := FAILURES b + 1,
                   fails := dict_set (fails b) short_name
                              \<lparr>fr_exception = e, fr_traceback = extract_tb env e\<rparr>,
                   state := s1\<lparr>console := console s1
                              @ [progress_line env i n short_name (FAILURES b + 1)]\<rparr>\<rparr>)
             else Inl (e, s1))"

text \<open>
  Lines 250-290. The result is \<^verbatim>\<open>(SUCCESSES, FAILURES, fails, seconds)\<close> and the
  state after the batch.
\<close>

definition run_test_files ::
  "('w, 't) env \<Rightarrow> py_path list \<Rightarrow> bool \<Rightarrow> (string \<times> string) list \<Rightarrow> 'w st \<Rightarrow>
   (py_exc \<times> 'w st) + ((nat \<times> nat \<times> (string \<times> failure_record) list \<times> 't) \<times> 'w st)" where
  "run_test_files env test_files verbose special_arguments s =
     (let start = time_time env (world s);
          s0 = s\<lparr>world := setenv env ''DEBUG_MODE'' ''true'' (world s)\<rparr>
      in case run_test_loop env verbose special_arguments (length test_files) 0 test_files
                \<lparr>SUCCESSES = 0, FAILURES = 0, fails = [], state = s0\<rparr> of
           Inl x \<Rightarrow> Inl x
         | Inr b \<Rightarrow>
             Inr ((SUCCESSES b, FAILURES b, fails b,
                   time_sub env (time_time env (world (state b))) start), state b))"

section \<open>\<^verbatim>\<open>to_title\<close> and the reports\<close>

definition GRAY :: string where
  "GRAY = ''rgb(128,128,128)''"

definition YELLOW :: string where
  "YELLOW = ''yellow''"

definition STYLES :: "string list" where
  "STYLES = [''[bold]'', ''[/bold]'', ''[red]'', ''[/red]'', ''[green]'', ''[/green]'',
             ''[bold red]'', ''[/bold red]'']"

text \<open>\<^verbatim>\<open>int(a / 2)\<close> rounds towards zero.\<close>

definition int_half :: "int \<Rightarrow> int" where
  "int_half a = (if 0 \<le> a then a div 2 else - ((- a) div 2))"

definition to_title :: "string \<Rightarrow> string \<Rightarrow> string" where
  "to_title title0 char =
     (let title = '' '' @ title0 @ '' '';
          len_styles = (\<Sum>style \<leftarrow> filter (\<lambda>style. py_in style title) STYLES. int (length style));
          n = int_half (LENGTH - int (length title) + len_styles);
          formatted_title = py_mul char n @ title @ py_mul char n
      in formatted_title @ py_mul char (LENGTH - int (length formatted_title) + len_styles))"

text \<open>Lines 311-320: the lines of one traceback, each printed in the style chosen for it.\<close>

fun traceback_lines :: "string \<Rightarrow> string list \<Rightarrow> printed list" where
  "traceback_lines style [] = []"
| "traceback_lines style (line # rest) =
     (let style' =
           (if \<not> py_in ''openbb_terminal'' line then GRAY
            else if rest = [] then YELLOW
            else if \<not> py_in ''openbb_terminal'' (hd rest) then YELLOW
            else style)
      in Printed line [] style' # traceback_lines style' rest)"

definition failure_lines :: "('w, 't) env \<Rightarrow> string \<times> failure_record \<Rightarrow> printed list" where
  "failure_lines env item =
     (case item of (file, exception) \<Rightarrow>
        [Printed (to_title (''[bold red]'' @ file @ ''[/bold red]'') ''-'') [newline] ''red'',
         Printed (''[bold red]'' @ [newline] @ ''Traceback:[/bold red]'') [newline] []]
        @ traceback_lines [] (format_list env (fr_traceback exception))
        @ [Printed (''[bold red]Exception type:[/bold red] ''
                      @ exc_class (fr_exception exception)) [newline] [],
           Printed (''[bold red]Detail:[/bold red] ''
                      @ exc_detail (fr_exception exception)) [newline] [],
           Printed (py_mul ''- '' (int_half LENGTH)) [newline] []])"

definition display_failures ::
  "('w, 't) env \<Rightarrow> (string \<times> failure_record) list \<Rightarrow> 'w st \<Rightarrow> 'w st" where
  "display_failures env fls s =
     (if fls \<noteq> []
      then s\<lparr>console := console s
                @ [Printed ([newline] @ to_title ''FAILURES'' ''='') [newline] []]
                @ concat (map (failure_lines env) fls)\<rparr>
      else s)"

text \<open>
  Lines 354-358: the frames are searched from the innermost one; a name that contains
  \<^verbatim>\<open>call_\<close> has a second piece when split at \<^verbatim>\<open>_\<close>.
\<close>

fun broken_cmd_of :: "frame list \<Rightarrow> string" where
  "broken_cmd_of [] = ''unknown''"
| "broken_cmd_of (fr # frs) =
     (if py_in ''_controller.py'' (frame_filename fr) \<and> py_in ''call_'' (frame_name fr)
      then py_split ''_'' (frame_name fr) ! 1
      else broken_cmd_of frs)"

definition str_int :: "int \<Rightarrow> string" where
  "str_int i = (if i < 0 then ''-'' @ str_nat (nat (- i)) else str_nat (nat i))"

definition display_summary ::
  "('w, 't) env \<Rightarrow> (string \<times> failure_record) list \<Rightarrow> int \<Rightarrow> int \<Rightarrow> 't \<Rightarrow> 'w st \<Rightarrow> 'w st" where
  "display_summary env fls n_successes n_failures seconds s =
     (let s1 =
           (if fls \<noteq> []
            then s\<lparr>console := console s
                      @ [Printed ([newline] @ to_title ''integration test summary'' ''='')
                           [newline] []]
                      @ map (\<lambda>(file, exception).
                               Printed (''FAILED '' @ file @ '' -> command: ''
                                          @ broken_cmd_of (rev (fr_traceback exception)))
                                 [newline] []) fls\<rparr>
            else s);
          failures =
            (if n_failures > 0
             then ''[bold][red]'' @ str_int n_failures @ '' failed, [/red][/bold]'' else []);
          successes =
            (if n_successes > 0
             then ''[green]'' @ str_int n_successes @ '' passed[/green]'' else [])
      in console_print
           (to_title (failures @ successes @ '' in '' @ format_2f env seconds @ '' s'') ''='')
           (if n_failures = 0 then ''green'' else ''red'') s1)"

section \<open>\<^verbatim>\<open>build_test_path_list\<close> and \<^verbatim>\<open>collect_test_files\<close>\<close>

text \<open>
  The argument is a list of strings, or a string (the default of the command line is
  \<^verbatim>\<open>""\<close>): a \<^verbatim>\<open>for\<close> loop over a string runs over its characters.
\<close>

datatype path_arg = PathStr string | PathList "string list"

definition fragments :: "path_arg \<Rightarrow> string list" where
  "fragments a = (case a of PathStr t \<Rightarrow> map (\<lambda>c. [c]) t | PathList xs \<Rightarrow> xs)"

definition endswith :: "string \<Rightarrow> string \<Rightarrow> bool" where
  "endswith s suf = suffix suf s"

text \<open>Lines 105-110: the files of one walk, in the order of the walk.\<close>

definition walk_files :: "(string \<times> string list \<times> string list) list \<Rightarrow> string list" where
  "walk_files all_files =
     concat (map (\<lambda>(root, _, files).
                    map (\<lambda>name. root @ ''/'' @ name)
                      (filter (\<lambda>name. endswith name ''.openbb'') files)) all_files)"

text \<open>Lines 93-110: the loop over the fragments; \<open>test_files\<close> is the list built so far.\<close>

fun collect_loop ::
  "('w, 't) env \<Rightarrow> string list \<Rightarrow> string list \<Rightarrow> 'w st \<Rightarrow> string list \<times> 'w st" where
  "collect_loop env [] test_files s = (test_files, s)"
| "collect_loop env (path # rest) test_files s =
     (let script_path = path_join (path_join (MISCELLANEOUS_DIRECTORY env) ''scripts'') path
      in if \<not> path_exists env (world s) (path_str script_path)
         then collect_loop env rest test_files
                (console_print ([newline] @ ''[red]Can'' @ [CHR 0x27] @ ''t find the file: ''
                   @ path_str script_path @ ''[/red]'' @ [newline]) [] s)
         else if path_is_file env (world s) (path_str script_path)
                 \<and> endswith (path_str script_path) ''.openbb''
         then collect_loop env rest (test_files @ [path_str script_path]) s
         else if path_is_dir env (world s) (path_str script_path)
         then collect_loop env rest
                (test_files @ walk_files (os_walk env (world s) (path_str script_path))) s
         else collect_loop env rest test_files s)"

definition build_test_path_list ::
  "('w, 't) env \<Rightarrow> path_arg \<Rightarrow> 'w st \<Rightarrow> py_path list \<times> 'w st" where
  "build_test_path_list env path_list s =
     (if path_list = PathStr []
      then ([], console_print ''Please send a path when using test mode'' [] s)
      else (case collect_loop env (fragments path_list) [] s of
              (test_files, s1) \<Rightarrow> (sort (map Path_of (set_iter env test_files)), s1)))"

definition collect_test_files ::
  "('w, 't) env \<Rightarrow> path_arg \<Rightarrow> 'w st \<Rightarrow> py_path list \<times> 'w st" where
  "collect_test_files env path_list s =
     (let path_list1 =
           (if path_list = PathStr [] \<or> path_list = PathList [] then PathList [[]]
            else path_list)
      in case build_test_path_list env path_list1 s of
           (test_files, s1) \<Rightarrow>
             (test_files,
              console_print (''collected '' @ str_nat (length test_files) @ '' scripts''
                               @ [newline]) ''bold''
                (console_print (''Collecting scripts from: ''
                     @ path_str (path_join (MISCELLANEOUS_DIRECTORY env) ''scripts'')
                     @ [newline]) [] s1)))"

section \<open>Reference notions for the properties\<close>

subsection \<open>Script lines as text and placeholders\<close>

text \<open>
  A line with positional placeholders: literal text and tokens \<^verbatim>\<open>$ARGV[k]\<close>.
  \<^term>\<open>subst_seg args\<close> is what the specification asks of one piece: a token whose index
  is below the number of arguments becomes that argument, every other piece stays.
\<close>

datatype seg = Lit string | Tok nat

fun render :: "seg list \<Rightarrow> string" where
  "render [] = []"
| "render (Lit t # r) = t @ render r"
| "render (Tok k # r) = argv_token k @ render r"

fun subst_seg :: "string list \<Rightarrow> seg \<Rightarrow> seg" where
  "subst_seg args (Lit t) = Lit t"
| "subst_seg args (Tok k) = (if k < length args then Lit (args ! k) else Tok k)"

fun seg_dollar_free :: "seg \<Rightarrow> bool" where
  "seg_dollar_free (Lit t) = (CHR ''$'' \<notin> set t)"
| "seg_dollar_free (Tok k) = True"

text \<open>
  A line with named placeholders \<^verbatim>\<open>${key=default}\<close>. \<^term>\<open>resolve_pseg sa\<close> is what the
  specification asks of one piece: the value of the key if it is present and not
  empty, the default otherwise.
\<close>

datatype pseg = PLit string | Ph string string

fun render_ph :: "pseg list \<Rightarrow> string" where
  "render_ph [] = []"
| "render_ph (PLit t # r) = t @ render_ph r"
| "render_ph (Ph k d # r) = ''${'' @ k @ ''='' @ d @ ''}'' @ render_ph r"

definition lookup_or_default :: "(string \<times> string) list \<Rightarrow> string \<Rightarrow> string \<Rightarrow> string" where
  "lookup_or_default sa k d =
     (case map_of sa k of Some v \<Rightarrow> if v \<noteq> [] then v else d | None \<Rightarrow> d)"

fun resolve_pseg :: "(string \<times> string) list \<Rightarrow> pseg \<Rightarrow> string" where
  "resolve_pseg sa (PLit t) = t"
| "resolve_pseg sa (Ph k d) = lookup_or_default sa k d"

fun pseg_ok :: "pseg \<Rightarrow> bool" where
  "pseg_ok (PLit t) = (CHR ''$'' \<notin> set t \<and> CHR ''}'' \<notin> set t)"
| "pseg_ok (Ph k d) =
     (k \<noteq> [] \<and> d \<noteq> [] \<and> set k \<inter> {CHR ''{'', CHR ''='', CHR ''}''} = {}
      \<and> set d \<inter> {CHR ''{'', CHR ''='', CHR ''}''} = {})"

subsection \<open>Helpers that are not in this file\<close>

text \<open>
  Modelled from the spec: \<^verbatim>\<open>replace_dynamic\<close> of
  \<^verbatim>\<open>openbb_terminal.terminal_controller\<close> is missing. The specification: a
  \<^verbatim>\<open>${key=default}\<close> occurrence is replaced "with the SpecialArguments value for key if
  present and non-empty, otherwise with default". The key is the matched text between
  \<^verbatim>\<open>${\<close> and the first \<^verbatim>\<open>=\<close>, the default what follows it up to the closing brace.
\<close>

definition replace_dynamic_spec :: "string \<Rightarrow> (string \<times> string) list \<Rightarrow> py_exc + string" where
  "replace_dynamic_spec x special_arguments =
     (let body = butlast (drop 2 x);
          key = takeWhile (\<lambda>c. c \<noteq> CHR ''='') body;
          default = drop (Suc (length key)) body
      in Inr (lookup_or_default special_arguments key default))"

text \<open>
  Modelled from the spec: \<^verbatim>\<open>is_reset\<close> of \<^verbatim>\<open>openbb_terminal.terminal_helper\<close> is
  missing. The specification: "a reset directive line is stripped"; the line is the
  word \<^verbatim>\<open>reset\<close>.
\<close>

definition is_reset_spec :: "string \<Rightarrow> bool" where
  "is_reset_spec x = (py_strip [newline] x = ''reset'')"

text \<open>
  Modelled from the spec: \<^verbatim>\<open>insert_start_slash\<close> of
  \<^verbatim>\<open>openbb_terminal.terminal_controller\<close> is missing. The specification: "ensure the
  path begins with a leading separator token".
\<close>

definition insert_start_slash_spec :: "string list \<Rightarrow> string list" where
  "insert_start_slash_spec cmds =
     (case cmds of [] \<Rightarrow> [] | c # cs \<Rightarrow> (if prefix ''/'' c then c else ''/'' @ c) # cs)"

subsection \<open>Every script attempted once, in order\<close>

text \<open>
  One replay as the batch makes it, on the world alone, and the replays of a list of
  scripts one after the other, whatever each of them raises.
\<close>

definition attempt ::
  "('w, 't) env \<Rightarrow> bool \<Rightarrow> (string \<times> string) list \<Rightarrow> py_path \<Rightarrow> 'w \<Rightarrow> py_exc option \<times> 'w" where
  "attempt env verbose special_arguments file w =
     (case run_scripts env file True verbose None (Some special_arguments) True
             \<lparr>world = w, console = []\<rparr> of
        (r, s) \<Rightarrow> (r, world s))"

fun attempts ::
  "('w, 't) env \<Rightarrow> bool \<Rightarrow> (string \<times> string) list \<Rightarrow> py_path list \<Rightarrow> 'w
   \<Rightarrow> py_exc option list \<times> 'w" where
  "attempts env verbose special_arguments [] w = ([], w)"
| "attempts env verbose special_arguments (f # fs) w =
     (case attempt env verbose special_arguments f w of
        (r, w1) \<Rightarrow>
          (case attempts env verbose special_arguments fs w1 of
             (rs, w2) \<Rightarrow> (r # rs, w2)))"

text \<open>
  The dictionary of failures that the replays call for: every exception raised, with
  its traceback, under the short name of its script, entered in the order of the
  scripts into the dictionary \<open>d\<close>.
\<close>

fun recorded_failures ::
  "('w, 't) env \<Rightarrow> py_path list \<Rightarrow> py_exc option list \<Rightarrow> (string \<times> failure_record) list
   \<Rightarrow> (string \<times> failure_record) list" where
  "recorded_failures env (f # fs) (Some e # rs) d =
     recorded_failures env fs rs
       (dict_set d (file_short_name (MISCELLANEOUS_DIRECTORY env) f)
          \<lparr>fr_exception = e, fr_traceback = extract_tb env e\<rparr>)"
| "recorded_failures env (f # fs) (None # rs) d = recorded_failures env fs rs d"
| "recorded_failures env fs rs d = d"

definition failed_names :: "py_path \<Rightarrow> py_path list \<Rightarrow> py_exc option list \<Rightarrow> string list" where
  "failed_names misc files rs =
     map (\<lambda>(f, r). file_short_name misc f) (filter (\<lambda>(f, r). r \<noteq> None) (zip files rs))"

subsection \<open>A small world for concrete runs\<close>

text \<open>
  Files with their lines, the directories with what a walk of them yields, the command
  lists the interpreter was given (in order) and the capture files opened. The
  interpreter raises on a command that contains \<^verbatim>\<open>boom\<close>.
\<close>

record demo_world =
  files :: "(string \<times> string list) list"
  dirs :: "(string \<times> (string \<times> string list \<times> string list) list) list"
  jobs :: "string list list"
  captures :: "string list"

definition demo_terminal ::
  "string list option \<Rightarrow> bool \<Rightarrow> demo_world \<Rightarrow> py_exc option \<times> demo_world" where
  "demo_terminal cmds test_mode w =
     (case cmds of
        None \<Rightarrow> (None, w)
      | Some cs \<Rightarrow>
          (if list_ex (py_in ''boom'') cs then Some (PyExc ''RuntimeError'' ''boom'' True)
           else None,
           w\<lparr>jobs := jobs w @ [cs]\<rparr>))"

text \<open>
  The percentage of the progress line, rounded to the nearest integer and to the even
  one at a tie.
\<close>

definition round_half_even :: "nat \<Rightarrow> nat \<Rightarrow> nat" where
  "round_half_even a n =
     (let q = a div n; r = a mod n
      in if 2 * r < n then q else if n < 2 * r then q + 1
         else if even q then q else q + 1)"

definition demo_env :: "(demo_world, nat) env" where
  "demo_env =
     \<lparr>MISCELLANEOUS_DIRECTORY = [''/'', ''m''],
      REPOSITORY_DIRECTORY = [''/'', ''r''],
      is_reset = is_reset_spec,
      replace_dynamic = replace_dynamic_spec,
      insert_start_slash = insert_start_slash_spec,
      terminal = demo_terminal,
      suppress_enter = (\<lambda>w. w),
      suppress_exit = (\<lambda>w. w),
      path_exists = (\<lambda>w p. p \<in> set (map fst (files w)) \<or> p \<in> set (map fst (dirs w))),
      path_is_file = (\<lambda>w p. p \<in> set (map fst (files w))),
      path_is_dir = (\<lambda>w p. p \<in> set (map fst (dirs w))),
      os_walk = (\<lambda>w p. case map_of (dirs w) p of Some ws \<Rightarrow> ws | None \<Rightarrow> []),
      path_open = (\<lambda>w p. case map_of (files w) p of
                            Some ls \<Rightarrow> Inr ls
                          | None \<Rightarrow> Inl (PyExc ''FileNotFoundError'' p True)),
      mkdir = (\<lambda>d w. Inr w),
      capture_open = (\<lambda>f w. Inr (w\<lparr>captures := captures w @ [f]\<rparr>)),
      capture_close = (\<lambda>w. w),
      timestamp_str = (\<lambda>w. ''1667500000.5''),
      time_time = (\<lambda>w. length (jobs w)),
      time_sub = (\<lambda>a b. a - b),
      setenv = (\<lambda>k v w. w),
      extract_tb = (\<lambda>e. []),
      format_list = map frame_line,
      format_percent = (\<lambda>i n. str_nat (round_half_even (i * 100) n) @ ''%''),
      format_2f = (\<lambda>t. str_nat t @ ''.00''),
      set_iter = remdups\<rparr>"

text \<open>
  An interpreter that leaves with \<^verbatim>\<open>SystemExit\<close>, which is not an \<^verbatim>\<open>Exception\<close>, on a
  command that contains \<^verbatim>\<open>boom\<close>.
\<close>

definition exiting_terminal ::
  "string list option \<Rightarrow> bool \<Rightarrow> demo_world \<Rightarrow> py_exc option \<times> demo_world" where
  "exiting_terminal cmds test_mode w =
     (case cmds of
        None \<Rightarrow> (None, w)
      | Some cs \<Rightarrow>
          (if list_ex (py_in ''boom'') cs then Some (PyExc ''SystemExit'' [] False) else None,
           w\<lparr>jobs := jobs w @ [cs]\<rparr>))"

definition exiting_env :: "(demo_world, nat) env" where
  "exiting_env = demo_env\<lparr>terminal := exiting_terminal\<rparr>"

text \<open>
  Three scripts under \<^verbatim>\<open>/m/scripts\<close>; the second one makes the interpreter raise.
\<close>

definition three_scripts_world :: demo_world where
  "three_scripts_world =
     \<lparr>files = [(''/m/scripts/a.openbb'', [''stocks'' @ [newline], ''load AAPL'' @ [newline]]),
               (''/m/scripts/b.openbb'', [''boom'' @ [newline]]),
               (''/m/scripts/c.openbb'', [''crypto'' @ [newline]])],
      dirs = [], jobs = [], captures = []\<rparr>"

definition three_scripts :: "py_path list" where
  "three_scripts =
     [[''/'', ''m'', ''scripts'', ''a.openbb''], [''/'', ''m'', ''scripts'', ''b.openbb''],
      [''/'', ''m'', ''scripts'', ''c.openbb'']]"

text \<open>A script of a comment line, an empty line and a reset line.\<close>

definition blank_script_world :: demo_world where
  "blank_script_world =
     \<lparr>files = [(''/m/scripts/blank.openbb'',
                 [''# only a comment'' @ [newline], [newline], ''reset'' @ [newline]])],
      dirs = [], jobs = [], captures = []\<rparr>"

text \<open>
  A file \<^verbatim>\<open>/x.openbb\<close> in the root directory; a walk that starts at \<^verbatim>\<open>//\<close> reports the
  root as it was given, \<^verbatim>\<open>//\<close>.
\<close>

definition double_slash_world :: demo_world where
  "double_slash_world =
     \<lparr>files = [(''/x.openbb'', [''exit'' @ [newline]])],
      dirs = [(''//'', [(''//'', [], [''x.openbb''])])],
      jobs = [], captures = []\<rparr>"

section \<open>Properties\<close>

subsection \<open>Input preprocessing\<close>

lemma py_in_single: "py_in [c] s \<longleftrightarrow> c \<in> set s"
  by (induction s) auto

lemma py_strip_subset: "set (py_strip cs s) \<subseteq> set s"
  unfolding py_strip_def
  by (metis (no_types, lifting) set_dropWhileD set_rev subsetI)

lemma py_strip_nonempty: "py_strip cs x \<noteq> [] \<Longrightarrow> x \<noteq> []"
  by (auto simp: py_strip_def)

lemma rs_raw_lines_filter:
  "rs_raw_lines reset fp =
     map (py_strip [newline])
       (filter (\<lambda>x. \<not> reset x \<and> CHR ''#'' \<notin> set x \<and> py_strip [newline] x \<noteq> []) fp)"
  unfolding rs_raw_lines_def Let_def filter_filter
  by (rule arg_cong [where f = "map (py_strip [newline])"], rule filter_cong)
     (auto simp: py_in_single dest: py_strip_nonempty)

lemma rs_raw_lines_empty:
  assumes "\<forall>x\<in>set fp. reset x \<or> py_in ''#'' x \<or> py_strip [newline] x = []"
  shows "rs_raw_lines reset fp = []"
  using assms by (auto simp: rs_raw_lines_filter py_in_single filter_empty_conv)

text \<open>
  C5, as stated, fails: a line that has the comment marker \<^verbatim>\<open>#\<close> behind a command, not
  at its start, is dropped and not kept. Of the two lines \<^verbatim>\<open>load AAPL #note\<close> and
  \<^verbatim>\<open>exit\<close> only the second is left.
\<close>

theorem C5_comment_inside_line_is_dropped:
  "rs_raw_lines is_reset_spec [''load AAPL #note'' @ [newline], ''exit'' @ [newline]] = [''exit'']"
  by (simp add: rs_raw_lines_def is_reset_spec_def py_strip_def newline_def)

text \<open>
  C5, amended: preprocessing drops every line that contains the comment marker
  \<^verbatim>\<open>#\<close> anywhere, every reset line and every line that is empty once its leading and
  trailing newline characters are removed. The lines kept are exactly the others, in
  the order of the file, without those newline characters; none of them is empty and
  none contains the comment marker.
\<close>

theorem C5_preprocessing_drops_lines_containing_marker:
  "rs_raw_lines reset fp =
     map (py_strip [newline])
       (filter (\<lambda>x. \<not> reset x \<and> CHR ''#'' \<notin> set x \<and> py_strip [newline] x \<noteq> []) fp)
   \<and> list_all (\<lambda>l. l \<noteq> [] \<and> CHR ''#'' \<notin> set l) (rs_raw_lines reset fp)"
proof
  show "rs_raw_lines reset fp =
     map (py_strip [newline])
       (filter (\<lambda>x. \<not> reset x \<and> CHR ''#'' \<notin> set x \<and> py_strip [newline] x \<noteq> []) fp)"
    by (rule rs_raw_lines_filter)
  have "l \<noteq> [] \<and> CHR ''#'' \<notin> set l" if "l \<in> set (rs_raw_lines reset fp)" for l
    using that py_strip_subset [of "[newline]"] by (auto simp: rs_raw_lines_filter)
  then show "list_all (\<lambda>l. l \<noteq> [] \<and> CHR ''#'' \<notin> set l) (rs_raw_lines reset fp)"
    by (simp add: list_all_iff)
qed

subsection \<open>The exit line\<close>

text \<open>
  C4, as stated, fails: the source takes for an exit directive every line that contains
  the text \<^verbatim>\<open>exit\<close>. The last line \<^verbatim>\<open>load dexit\<close> is not an exit directive, and no
  exit line is appended behind it.
\<close>

theorem C4_exit_inside_a_word_counts:
  "rs_append_exit True [''stocks'', ''load dexit''] = Inr [''stocks'', ''load dexit'']
   \<and> rs_translate insert_start_slash_spec True [''stocks'', ''load dexit'']
       = Inr [''/stocks/load dexit'']"
  by code_simp

text \<open>
  C4, amended: in test mode, a line \<^verbatim>\<open>exit\<close> is appended to a non-empty sequence of
  resolved lines if and only if its last line does not contain the text \<^verbatim>\<open>exit\<close>
  (anywhere, also inside another word: the source tests \<^verbatim>\<open>"exit" in lines[-1]\<close>);
  exactly one line is appended, the rest of the sequence is unchanged, the last line of
  the result contains \<^verbatim>\<open>exit\<close>, and the step applied to its own result changes
  nothing, so the exit line is appended once. The translation in test mode is the
  translation of the sequence so extended.
\<close>

theorem C4_exit_appended_once:
  assumes "lines \<noteq> []"
  shows "rs_append_exit True lines
           = Inr (if py_in ''exit'' (last lines) then lines else lines @ [''exit''])
       \<and> rs_append_exit True (if py_in ''exit'' (last lines) then lines else lines @ [''exit''])
           = Inr (if py_in ''exit'' (last lines) then lines else lines @ [''exit''])
       \<and> rs_translate iss True lines
           = rs_translate iss False (if py_in ''exit'' (last lines) then lines else lines @ [''exit''])
       \<and> py_in ''exit'' (last (if py_in ''exit'' (last lines) then lines else lines @ [''exit'']))"
  using assms by (auto simp: rs_append_exit_def rs_translate_def)

text \<open>
  C4, amended, at the lines \<^verbatim>\<open>stocks\<close>, \<^verbatim>\<open>load AAPL\<close>: one \<^verbatim>\<open>exit\<close> line is appended,
  and a second application leaves the three lines as they are.
\<close>

theorem C4_exit_appended_once_witness:
  "rs_append_exit True [''stocks'', ''load AAPL''] = Inr [''stocks'', ''load AAPL'', ''exit'']
   \<and> rs_append_exit True [''stocks'', ''load AAPL'', ''exit'']
        = Inr [''stocks'', ''load AAPL'', ''exit'']
   \<and> rs_translate insert_start_slash_spec True [''stocks'', ''load AAPL'']
        = rs_translate insert_start_slash_spec False [''stocks'', ''load AAPL'', ''exit'']"
  using C4_exit_appended_once [of "[''stocks'', ''load AAPL'']" insert_start_slash_spec]
  by simp

subsection \<open>Facts about the string functions\<close>

lemma py_in_sublist: "py_in sub s \<longleftrightarrow> sublist sub s"
  by (induction s) (auto simp: sublist_Cons_right)

lemma replace_from_absent: "\<not> py_in old s \<Longrightarrow> replace_from old new s = s"
  by (induction s) auto

lemma replace_from_prefix:
  "old \<noteq> [] \<Longrightarrow> replace_from old new (old @ s) = new @ replace_from old new s"
  by (cases old) auto

lemma split_on_absent: "\<not> py_in sep s \<Longrightarrow> split_on sep cur s = [cur @ s]"
  by (induction s arbitrary: cur) auto

lemma split_on_two: "split_on sep cur s = a # b # others \<Longrightarrow> py_in sep s"
  using split_on_absent [of sep s cur] by auto

subsection \<open>The short name of a script\<close>

text \<open>
  C8, as stated, fails: the short name is not relative to the scripts root. For the
  script \<^verbatim>\<open>stocks/a.openbb\<close> under the scripts root \<^verbatim>\<open>/m/scripts\<close> it is
  \<^verbatim>\<open>scripts/stocks/a.openbb\<close>, and not \<^verbatim>\<open>stocks/a.openbb\<close>.
\<close>

theorem C8_short_name_keeps_scripts_prefix:
  "file_short_name [''/'', ''m''] (path_join (path_join [''/'', ''m''] ''scripts'') ''stocks/a.openbb'')
     = ''scripts/stocks/a.openbb''
   \<and> file_short_name [''/'', ''m''] (path_join (path_join [''/'', ''m''] ''scripts'') ''stocks/a.openbb'')
     \<noteq> ''stocks/a.openbb''"
  by (simp add: file_short_name_def py_replace_def path_join_def Path_of_def path_root_def
        py_split_def path_str_def is_absolute_def)

text \<open>
  C8, amended: the short name of a script is its path relative to the directory
  \<^verbatim>\<open>MISCELLANEOUS_DIRECTORY\<close>, the parent of the scripts root: for a path that is this
  directory, a separator and a rest in which the directory's name does not occur
  again, the short name is that rest (for a discovered script it begins with
  \<^verbatim>\<open>scripts/\<close>). The progress line of the script begins with it.
\<close>

theorem C8_short_name_relative_to_miscellaneous_directory:
  assumes "path_str misc \<noteq> []"
    and "path_str file = path_str misc @ ''/'' @ rel"
    and "\<not> py_in (path_str misc) (''/'' @ rel)"
  shows "file_short_name misc file = rel
       \<and> prefix rel (p_text (progress_line env i n (file_short_name misc file) k))"
proof -
  have "file_short_name misc file = rel"
    using assms
    by (simp add: file_short_name_def py_replace_def replace_from_prefix replace_from_absent
          del: replace_from.simps)
  then show ?thesis
    by (simp add: progress_line_def Let_def)
qed

text \<open>
  C8, amended, at the script \<^verbatim>\<open>/m/scripts/stocks/a.openbb\<close> with the miscellaneous
  directory \<^verbatim>\<open>/m\<close>.
\<close>

theorem C8_short_name_witness:
  "file_short_name [''/'', ''m''] [''/'', ''m'', ''scripts'', ''stocks'', ''a.openbb'']
     = ''scripts/stocks/a.openbb''
   \<and> prefix ''scripts/stocks/a.openbb''
        (p_text (progress_line demo_env 0 1
           (file_short_name [''/'', ''m''] [''/'', ''m'', ''scripts'', ''stocks'', ''a.openbb'']) 0))"
  by (rule C8_short_name_relative_to_miscellaneous_directory)
     (simp_all add: path_str_def is_absolute_def)

subsection \<open>The export line\<close>

lemma rs_export_folder:
  assumes "py_split ''export '' l0 = a # folder # others"
  shows "rs_export (l0 # rest) = Inr (py_rstrip folder, rest)"
proof -
  have "py_in ''export '' l0"
    using assms unfolding py_split_def by (rule split_on_two)
  then obtain ps ss where "l0 = ps @ ''export '' @ ss"
    by (auto simp: py_in_sublist sublist_def)
  then have "l0 = ps @ ''export'' @ ('' '' @ ss)" by simp
  then have "py_in ''export'' l0"
    unfolding py_in_sublist by (metis sublist_appendI)
  then show ?thesis
    using assms by (simp add: rs_export_def)
qed

text \<open>
  C6: when the first resolved line contains the export directive \<^verbatim>\<open>export\<close> followed
  by a folder (the text after \<^verbatim>\<open>"export "\<close>, without trailing whitespace, \<^verbatim>\<open>reports/\<close>
  for the line \<^verbatim>\<open>export reports/\<close>), the translation is one invocation that begins
  with \<^verbatim>\<open>export\<close> and that folder; what follows is the command path built from the
  lines behind the first one (with the exit line of test mode), so the export line is
  not part of the slash-joined path.
\<close>

theorem C6_export_prefix:
  assumes "py_split ''export '' l0 = a # folder # others"
    and "py_rstrip folder \<noteq> []"
  shows "rs_export (l0 # rest) = Inr (py_rstrip folder, rest)
       \<and> rs_translate iss tm (l0 # rest)
           = Inr [''export '' @ py_rstrip folder
                   @ hd (rs_file_cmds iss []
                          (tl (if tm \<and> \<not> py_in ''exit'' (last (l0 # rest))
                               then (l0 # rest) @ [''exit''] else l0 # rest)))]"
proof -
  have ex: "rs_export (l0 # xs) = Inr (py_rstrip folder, xs)" for xs
    using assms(1) by (rule rs_export_folder)
  have cmds: "rs_file_cmds iss (py_rstrip folder) xs
                = [''export '' @ py_rstrip folder @ hd (rs_file_cmds iss [] xs)]" for xs
    using assms(2) by (simp add: rs_file_cmds_def Let_def)
  show ?thesis
    by (simp add: rs_translate_def rs_append_exit_def ex cmds)
qed

text \<open>
  C6 at the script \<^verbatim>\<open>export reports/\<close>, \<^verbatim>\<open>stocks\<close>, \<^verbatim>\<open>load AAPL\<close> in test mode.
\<close>

theorem C6_export_prefix_witness:
  "rs_export [''export reports/'', ''stocks'', ''load AAPL'']
     = Inr (''reports/'', [''stocks'', ''load AAPL''])
   \<and> rs_translate insert_start_slash_spec True [''export reports/'', ''stocks'', ''load AAPL'']
     = Inr [''export reports//stocks/load AAPL/exit'']"
proof -
  have sp: "py_split ''export '' ''export reports/'' = [] # ''reports/'' # []"
    by (simp add: py_split_def)
  have rs: "py_rstrip ''reports/'' = ''reports/''"
    by (simp add: py_rstrip_def is_space_def)
  have cmds: "rs_file_cmds insert_start_slash_spec [] [''stocks'', ''load AAPL'', ''exit'']
                = [''/stocks/load AAPL/exit'']"
    by (simp add: rs_file_cmds_def Let_def py_rstrip_def is_space_def py_replace_def
          py_split_ws_def insert_start_slash_spec_def)
  show ?thesis
    using C6_export_prefix [OF sp, of "[''stocks'', ''load AAPL'']" insert_start_slash_spec True]
    by (simp add: rs cmds)
qed

subsection \<open>The batch\<close>

lemma run_scripts_console:
  "run_scripts env p tm v ra sa out s = (r, s') \<Longrightarrow>
   run_scripts env p tm v ra sa out \<lparr>world = world s, console = c\<rparr>
     = (r, \<lparr>world = world s', console = c @ drop (length (console s)) (console s')\<rparr>)"
  unfolding run_scripts_def Let_def console_print_def
  by (auto split: if_splits prod.splits option.splits sum.splits)

lemma run_scripts_attempt:
  "run_scripts env f True v None (Some sa) True s = (r, s') \<Longrightarrow>
   attempt env v sa f (world s) = (r, world s')"
  by (simp add: attempt_def run_scripts_console [where c = "[]"])

lemma dict_set_keys:
  "map fst (dict_set d k v) = (if k \<in> set (map fst d) then map fst d else map fst d @ [k])"
  by (induction d) (auto simp: image_iff, force+)

lemma attempts_length: "attempts env v sa fs w = (rs, w') \<Longrightarrow> length rs = length fs"
  by (induction fs arbitrary: w rs) (auto split: prod.splits)

lemma failed_names_Cons:
  "failed_names misc (f # fs) (r # rs) =
     (if r \<noteq> None then [file_short_name misc f] else []) @ failed_names misc fs rs"
  by (simp add: failed_names_def)

lemma run_test_loop_refines:
  assumes "attempts env v sa fs (world (state b)) = (rs, w')"
    and "\<forall>e. Some e \<in> set rs \<longrightarrow> exc_is_Exception e"
  shows "\<exists>b'. run_test_loop env v sa n i fs b = Inr b'
           \<and> SUCCESSES b' = SUCCESSES b + length (filter (\<lambda>r. r = None) rs)
           \<and> FAILURES b' = FAILURES b + length (filter (\<lambda>r. r \<noteq> None) rs)
           \<and> world (state b') = w'
           \<and> set (map fst (fails b')) = set (map fst (fails b))
                 \<union> set (failed_names (MISCELLANEOUS_DIRECTORY env) fs rs)
           \<and> (distinct (map fst (fails b)) \<longrightarrow> distinct (map fst (fails b')))"
  using assms
proof (induction fs arbitrary: b i rs)
  case Nil
  then show ?case by (simp add: failed_names_def)
next
  case (Cons f fs)
  obtain r s1 where rs1: "run_scripts env f True v None (Some sa) True (state b) = (r, s1)"
    by (cases "run_scripts env f True v None (Some sa) True (state b)")
  then have att: "attempt env v sa f (world (state b)) = (r, world s1)"
    by (rule run_scripts_attempt)
  obtain rs2 where rs2: "attempts env v sa fs (world s1) = (rs2, w')" and rs: "rs = r # rs2"
    using Cons.prems(1) att by (auto split: prod.splits)
  have exc2: "\<forall>e. Some e \<in> set rs2 \<longrightarrow> exc_is_Exception e"
    using Cons.prems(2) rs by auto
  let ?k = "file_short_name (MISCELLANEOUS_DIRECTORY env) f"
  show ?case
  proof (cases r)
    case None
    let ?b1 = "b\<lparr>SUCCESSES := SUCCESSES b + 1,
                  state := s1\<lparr>console := console s1
                             @ [progress_line env i n ?k (FAILURES b)]\<rparr>\<rparr>"
    have step: "run_test_loop env v sa n i (f # fs) b = run_test_loop env v sa n (Suc i) fs ?b1"
      using rs1 None by (simp add: Let_def)
    have "attempts env v sa fs (world (state ?b1)) = (rs2, w')"
      using rs2 by simp
    from Cons.IH [OF this exc2, of "Suc i"] obtain b' where
      "run_test_loop env v sa n (Suc i) fs ?b1 = Inr b'"
      "SUCCESSES b' = SUCCESSES ?b1 + length (filter (\<lambda>r. r = None) rs2)"
      "FAILURES b' = FAILURES ?b1 + length (filter (\<lambda>r. r \<noteq> None) rs2)"
      "world (state b') = w'"
      "set (map fst (fails b')) = set (map fst (fails ?b1))
                 \<union> set (failed_names (MISCELLANEOUS_DIRECTORY env) fs rs2)"
      "distinct (map fst (fails ?b1)) \<longrightarrow> distinct (map fst (fails b'))"
      by blast
    then show ?thesis
      unfolding step rs using None by (simp add: failed_names_Cons)
  next
    case (Some e)
    then have ex: "exc_is_Exception e" using Cons.prems(2) rs by simp
    let ?b1 = "b\<lparr>FAILURES := FAILURES b + 1,
                   fails := dict_set (fails b) ?k
                              \<lparr>fr_exception = e, fr_traceback = extract_tb env e\<rparr>,
                   state := s1\<lparr>console := console s1
                              @ [progress_line env i n ?k (FAILURES b + 1)]\<rparr>\<rparr>"
    have step: "run_test_loop env v sa n i (f # fs) b = run_test_loop env v sa n (Suc i) fs ?b1"
      using rs1 Some ex by (simp add: Let_def)
    have "attempts env v sa fs (world (state ?b1)) = (rs2, w')"
      using rs2 by simp
    from Cons.IH [OF this exc2, of "Suc i"] obtain b' where
      "run_test_loop env v sa n (Suc i) fs ?b1 = Inr b'"
      "SUCCESSES b' = SUCCESSES ?b1 + length (filter (\<lambda>r. r = None) rs2)"
      "FAILURES b' = FAILURES ?b1 + length (filter (\<lambda>r. r \<noteq> None) rs2)"
      "world (state b') = w'"
      "set (map fst (fails b')) = set (map fst (fails ?b1))
                 \<union> set (failed_names (MISCELLANEOUS_DIRECTORY env) fs rs2)"
      "distinct (map fst (fails ?b1)) \<longrightarrow> distinct (map fst (fails b'))"
      by blast
    then show ?thesis
      unfolding step rs using Some by (auto simp: failed_names_Cons dict_set_keys)
  qed
qed

lemma run_test_loop_records:
  assumes "attempts env v sa fs (world (state b)) = (rs, w')"
    and "\<forall>e. Some e \<in> set rs \<longrightarrow> exc_is_Exception e"
  shows "\<exists>b'. run_test_loop env v sa n i fs b = Inr b'
           \<and> fails b' = recorded_failures env fs rs (fails b)"
  using assms
proof (induction fs arbitrary: b i rs)
  case Nil
  then show ?case by simp
next
  case (Cons f fs)
  obtain r s1 where rs1: "run_scripts env f True v None (Some sa) True (state b) = (r, s1)"
    by (cases "run_scripts env f True v None (Some sa) True (state b)")
  then have att: "attempt env v sa f (world (state b)) = (r, world s1)"
    by (rule run_scripts_attempt)
  obtain rs2 where rs2: "attempts env v sa fs (world s1) = (rs2, w')" and rs: "rs = r # rs2"
    using Cons.prems(1) att by (auto split: prod.splits)
  have exc2: "\<forall>e. Some e \<in> set rs2 \<longrightarrow> exc_is_Exception e"
    using Cons.prems(2) rs by auto
  let ?k = "file_short_name (MISCELLANEOUS_DIRECTORY env) f"
  show ?case
  proof (cases r)
    case None
    let ?b1 = "b\<lparr>SUCCESSES := SUCCESSES b + 1,
                  state := s1\<lparr>console := console s1
                             @ [progress_line env i n ?k (FAILURES b)]\<rparr>\<rparr>"
    have step: "run_test_loop env v sa n i (f # fs) b = run_test_loop env v sa n (Suc i) fs ?b1"
      using rs1 None by (simp add: Let_def)
    have "attempts env v sa fs (world (state ?b1)) = (rs2, w')"
      using rs2 by simp
    from Cons.IH [OF this exc2, of "Suc i"] show ?thesis
      unfolding step rs using None by simp
  next
    case (Some e)
    then have ex: "exc_is_Exception e" using Cons.prems(2) rs by simp
    let ?b1 = "b\<lparr>FAILURES := FAILURES b + 1,
                   fails := dict_set (fails b) ?k
                              \<lparr>fr_exception = e, fr_traceback = extract_tb env e\<rparr>,
                   state := s1\<lparr>console := console s1
                              @ [progress_line env i n ?k (FAILURES b + 1)]\<rparr>\<rparr>"
    have step: "run_test_loop env v sa n i (f # fs) b = run_test_loop env v sa n (Suc i) fs ?b1"
      using rs1 Some ex by (simp add: Let_def)
    have "attempts env v sa fs (world (state ?b1)) = (rs2, w')"
      using rs2 by simp
    from Cons.IH [OF this exc2, of "Suc i"] show ?thesis
      unfolding step rs using Some by simp
  qed
qed

lemma run_test_loop_not_caught:
  assumes "run_scripts env f True v None (Some sa) True (state b) = (Some e, s1)"
    and "\<not> exc_is_Exception e"
  shows "run_test_loop env v sa n i (f # rest) b = Inl (e, s1)"
  using assms by (simp add: Let_def)

text \<open>
  C1, as stated, fails for a fault that is not an \<^verbatim>\<open>Exception\<close>: the batch catches
  \<^verbatim>\<open>Exception\<close> only. When the replay of the second of three scripts leaves with
  \<^verbatim>\<open>SystemExit\<close>, \<^verbatim>\<open>run_test_files\<close> ends with it: the interpreter has been given the
  commands of the first two scripts only, the third script is never replayed, and no
  counts and no \<^verbatim>\<open>fails\<close> are returned.
\<close>

theorem C1_system_exit_ends_the_batch:
  "map_sum (\<lambda>(e, s'). (e, jobs (world s'))) (\<lambda>(r, s'). r)
     (run_test_files exiting_env three_scripts False [(''ticker'', [])]
        \<lparr>world = three_scripts_world, console = []\<rparr>)
   = Inl (PyExc ''SystemExit'' [] False, [[''/stocks/load AAPL/exit''], [''/boom/exit'']])"
  by code_simp

text \<open>
  C1, amended: for every list of discovered scripts, as long as every fault raised is
  an \<^verbatim>\<open>Exception\<close>, \<^verbatim>\<open>run_test_files\<close> replays every script of the list once, in the
  order of the list, whatever the earlier ones raise (\<^term>\<open>attempts\<close> runs them so, and
  the world after the batch is the world after these replays). It returns as
  successes the number of replays that raise nothing, as failures the number of those
  that raise, as \<^verbatim>\<open>fails\<close> the dictionary that holds, under the short name of each
  script whose replay raises, the exception raised with its traceback, and as seconds
  the time between its start and its end. An exception that is not an \<^verbatim>\<open>Exception\<close> is
  not caught: it leaves the loop at the script that raises it.
\<close>

theorem C1_batch_isolates_failures:
  assumes "attempts env verbose special_arguments test_files
             (setenv env ''DEBUG_MODE'' ''true'' (world s)) = (rs, w')"
    and "\<forall>e. Some e \<in> set rs \<longrightarrow> exc_is_Exception e"
  shows "(\<exists>s'.
           run_test_files env test_files verbose special_arguments s
             = Inr ((length (filter (\<lambda>r. r = None) rs), length (filter (\<lambda>r. r \<noteq> None) rs),
                     recorded_failures env test_files rs [],
                     time_sub env (time_time env w') (time_time env (world s))), s')
           \<and> world s' = w'
           \<and> length rs = length test_files
           \<and> distinct (map fst (recorded_failures env test_files rs []))
           \<and> set (map fst (recorded_failures env test_files rs []))
               = set (failed_names (MISCELLANEOUS_DIRECTORY env) test_files rs))
       \<and> (run_scripts env f True verbose None (Some special_arguments) True (state b)
             = (Some e, s1) \<and> \<not> exc_is_Exception e
           \<longrightarrow> run_test_loop env verbose special_arguments n i (f # rest) b = Inl (e, s1))"
proof -
  let ?b = "\<lparr>SUCCESSES = 0, FAILURES = 0, fails = [],
             state = s\<lparr>world := setenv env ''DEBUG_MODE'' ''true'' (world s)\<rparr>\<rparr>"
  have a: "attempts env verbose special_arguments test_files (world (state ?b)) = (rs, w')"
    using assms(1) by simp
  from run_test_loop_refines [OF a assms(2), of "length test_files" 0]
  obtain b' where b': "run_test_loop env verbose special_arguments (length test_files) 0
                         test_files ?b = Inr b'"
    and c: "SUCCESSES b' = length (filter (\<lambda>r. r = None) rs)"
      "FAILURES b' = length (filter (\<lambda>r. r \<noteq> None) rs)"
      "world (state b') = w'"
      "set (map fst (fails b'))
           = set (failed_names (MISCELLANEOUS_DIRECTORY env) test_files rs)"
      "distinct (map fst (fails b'))"
    by auto
  from run_test_loop_records [OF a assms(2), of "length test_files" 0]
  have f: "fails b' = recorded_failures env test_files rs []"
    using b' by auto
  have "length rs = length test_files"
    using assms(1) by (rule attempts_length)
  then have "\<exists>s'.
           run_test_files env test_files verbose special_arguments s
             = Inr ((length (filter (\<lambda>r. r = None) rs), length (filter (\<lambda>r. r \<noteq> None) rs),
                     recorded_failures env test_files rs [],
                     time_sub env (time_time env w') (time_time env (world s))), s')
           \<and> world s' = w'
           \<and> length rs = length test_files
           \<and> distinct (map fst (recorded_failures env test_files rs []))
           \<and> set (map fst (recorded_failures env test_files rs []))
               = set (failed_names (MISCELLANEOUS_DIRECTORY env) test_files rs)"
    using b' c f by (simp add: run_test_files_def Let_def)
  then show ?thesis
    using run_test_loop_not_caught by blast
qed

text \<open>
  C1, amended, at three scripts of which the second raises a \<^verbatim>\<open>RuntimeError\<close>: 2
  successes, 1 failure, \<^verbatim>\<open>fails\<close> holds this exception under the short name of the
  second script and nothing else, and the interpreter has been given the commands of
  all three scripts, in order.
\<close>

theorem C1_three_scripts_witness:
  "\<exists>s'. run_test_files demo_env three_scripts False [(''ticker'', [])]
        \<lparr>world = three_scripts_world, console = []\<rparr>
        = Inr ((2, 1, [(''scripts/b.openbb'',
                        \<lparr>fr_exception = PyExc ''RuntimeError'' ''boom'' True, fr_traceback = []\<rparr>)],
                3), s')
      \<and> jobs (world s') = [[''/stocks/load AAPL/exit''], [''/boom/exit''], [''/crypto/exit'']]"
proof -
  let ?w' = "three_scripts_world
               \<lparr>jobs := [[''/stocks/load AAPL/exit''], [''/boom/exit''], [''/crypto/exit'']],
                captures := [''/r/integration_test_output/16675000005_stocks_output.txt'',
                             ''/r/integration_test_output/16675000005_boom_output.txt'',
                             ''/r/integration_test_output/16675000005_crypto_output.txt'']\<rparr>"
  let ?rs = "[None, Some (PyExc ''RuntimeError'' ''boom'' True), None]"
  have "attempts demo_env False [(''ticker'', [])] three_scripts three_scripts_world = (?rs, ?w')"
    by code_simp
  then have a: "attempts demo_env False [(''ticker'', [])] three_scripts
                  (setenv demo_env ''DEBUG_MODE'' ''true''
                     (world \<lparr>world = three_scripts_world, console = []\<rparr>)) = (?rs, ?w')"
    by (simp add: demo_env_def)
  have d: "recorded_failures demo_env three_scripts ?rs []
             = [(''scripts/b.openbb'',
                 \<lparr>fr_exception = PyExc ''RuntimeError'' ''boom'' True, fr_traceback = []\<rparr>)]"
    by code_simp
  have t: "time_sub demo_env (time_time demo_env ?w')
             (time_time demo_env (world \<lparr>world = three_scripts_world, console = []\<rparr>)) = 3"
    by (simp add: demo_env_def three_scripts_world_def)
  have c: "length (filter (\<lambda>r. r = None) ?rs) = 2" "length (filter (\<lambda>r. r \<noteq> None) ?rs) = 1"
    by simp_all
  from C1_batch_isolates_failures [OF a, THEN conjunct1] obtain s' where
    r: "run_test_files demo_env three_scripts False [(''ticker'', [])]
          \<lparr>world = three_scripts_world, console = []\<rparr>
        = Inr ((length (filter (\<lambda>r. r = None) ?rs), length (filter (\<lambda>r. r \<noteq> None) ?rs),
                recorded_failures demo_env three_scripts ?rs [],
                time_sub demo_env (time_time demo_env ?w')
                  (time_time demo_env (world \<lparr>world = three_scripts_world, console = []\<rparr>))),
               s')"
    and w: "world s' = ?w'"
    by auto
  have "jobs (world s') = [[''/stocks/load AAPL/exit''], [''/boom/exit''], [''/crypto/exit'']]"
    unfolding w by simp
  then show ?thesis
    using r unfolding c d t by blast
qed

subsection \<open>A script without lines\<close>

lemma rs_lines_Nil: "rs_lines rd ra sa [] = Inr []"
  by (simp add: rs_lines_def split: option.splits list.splits)

text \<open>
  C10: when preprocessing removes every line of a script (each line is a reset line,
  contains the comment marker or is empty without its newline characters),
  \<^verbatim>\<open>run_scripts\<close> in test mode raises the \<^verbatim>\<open>IndexError\<close> of \<^verbatim>\<open>lines[-1]\<close> on the empty
  list of lines, before any command is given to the interpreter; the batch records
  the script as a failure under its short name and goes on with the next script.
\<close>

theorem C10_script_without_lines_fails:
  assumes "path_open env (world (state b)) (path_str file) = Inr fp"
    and "\<forall>x\<in>set fp. is_reset env x \<or> py_in ''#'' x \<or> py_strip [newline] x = []"
  shows "rs_lines (replace_dynamic env) routines_args special_arguments
           (rs_raw_lines (is_reset env) fp) = Inr []
       \<and> rs_append_exit True [] = Inl IndexError
       \<and> fst (run_scripts env file True verbose routines_args special_arguments output (state b))
           = Some IndexError
       \<and> world (snd (run_scripts env file True verbose routines_args special_arguments output
                       (state b))) = world (state b)
       \<and> (\<exists>s1. world s1 = world (state b)
             \<and> run_test_loop env verbose sa n i (file # rest) b
                 = run_test_loop env verbose sa n (Suc i) rest
                     (b\<lparr>FAILURES := FAILURES b + 1,
                        fails := dict_set (fails b)
                                   (file_short_name (MISCELLANEOUS_DIRECTORY env) file)
                                   \<lparr>fr_exception = IndexError,
                                      fr_traceback = extract_tb env IndexError\<rparr>,
                        state := s1\<rparr>))"
proof -
  have raw: "rs_raw_lines (is_reset env) fp = []"
    using assms(2) by (rule rs_raw_lines_empty)
  have tr: "rs_translate iss True [] = Inl IndexError" for iss
    by (simp add: rs_translate_def rs_append_exit_def)
  have run: "fst (run_scripts env file True v ra sp out (state b)) = Some IndexError
           \<and> world (snd (run_scripts env file True v ra sp out (state b))) = world (state b)"
    for v ra sp out
    using assms(1)
    by (simp add: run_scripts_def Let_def raw rs_lines_Nil tr console_print_def)
  obtain s1 where s1: "run_scripts env file True verbose None (Some sa) True (state b)
                         = (Some IndexError, s1)" and w1: "world s1 = world (state b)"
    using run [of verbose None "Some sa" True]
    by (cases "run_scripts env file True verbose None (Some sa) True (state b)") auto
  have "run_test_loop env verbose sa n i (file # rest) b
          = run_test_loop env verbose sa n (Suc i) rest
              (b\<lparr>FAILURES := FAILURES b + 1,
                 fails := dict_set (fails b)
                            (file_short_name (MISCELLANEOUS_DIRECTORY env) file)
                            \<lparr>fr_exception = IndexError,
                               fr_traceback = extract_tb env IndexError\<rparr>,
                 state := s1\<lparr>console := console s1
                            @ [progress_line env i n
                                 (file_short_name (MISCELLANEOUS_DIRECTORY env) file)
                                 (FAILURES b + 1)]\<rparr>\<rparr>)"
    using s1 by (simp add: Let_def IndexError_def)
  moreover have "world (s1\<lparr>console := console s1
                            @ [progress_line env i n
                                 (file_short_name (MISCELLANEOUS_DIRECTORY env) file)
                                 (FAILURES b + 1)]\<rparr>) = world (state b)"
    using w1 by simp
  ultimately have "\<exists>s1. world s1 = world (state b)
             \<and> run_test_loop env verbose sa n i (file # rest) b
                 = run_test_loop env verbose sa n (Suc i) rest
                     (b\<lparr>FAILURES := FAILURES b + 1,
                        fails := dict_set (fails b)
                                   (file_short_name (MISCELLANEOUS_DIRECTORY env) file)
                                   \<lparr>fr_exception = IndexError,
                                      fr_traceback = extract_tb env IndexError\<rparr>,
                        state := s1\<rparr>)"
    by blast
  then show ?thesis
    using run [of verbose routines_args special_arguments "output"]
    by (simp add: raw rs_lines_Nil rs_append_exit_def)
qed

text \<open>
  C10 at a script of a comment line, an empty line and a reset line: the replay raises
  \<^verbatim>\<open>IndexError\<close>, no command reaches the interpreter, and the batch of this one script
  ends with no success and one failure under the key \<^verbatim>\<open>scripts/blank.openbb\<close>.
\<close>

theorem C10_script_without_lines_witness:
  "fst (run_scripts demo_env [''/'', ''m'', ''scripts'', ''blank.openbb''] True False None
          (Some [(''ticker'', [])]) True \<lparr>world = blank_script_world, console = []\<rparr>)
     = Some IndexError
   \<and> (\<exists>s1. world s1 = blank_script_world
         \<and> run_test_loop demo_env False [(''ticker'', [])] 1 0
             [[''/'', ''m'', ''scripts'', ''blank.openbb'']]
             \<lparr>SUCCESSES = 0, FAILURES = 0, fails = [],
                state = \<lparr>world = blank_script_world, console = []\<rparr>\<rparr>
           = Inr \<lparr>SUCCESSES = 0, FAILURES = 1,
                  fails = [(''scripts/blank.openbb'',
                            \<lparr>fr_exception = IndexError, fr_traceback = []\<rparr>)],
                  state = s1\<rparr>)"
proof -
  let ?b = "\<lparr>SUCCESSES = 0, FAILURES = 0, fails = [],
             state = \<lparr>world = blank_script_world, console = []\<rparr>\<rparr>"
  have o: "path_open demo_env (world (state ?b)) (path_str [''/'', ''m'', ''scripts'', ''blank.openbb''])
             = Inr [''# only a comment'' @ [newline], [newline], ''reset'' @ [newline]]"
    by (simp add: demo_env_def blank_script_world_def path_str_def is_absolute_def)
  have h: "\<forall>x\<in>set [''# only a comment'' @ [newline], [newline], ''reset'' @ [newline]].
             is_reset demo_env x \<or> py_in ''#'' x \<or> py_strip [newline] x = []"
    by (simp add: demo_env_def is_reset_spec_def py_strip_def newline_def)
  have k: "file_short_name (MISCELLANEOUS_DIRECTORY demo_env) [''/'', ''m'', ''scripts'', ''blank.openbb'']
             = ''scripts/blank.openbb''"
    by code_simp
  have t: "extract_tb demo_env IndexError = []"
    by (simp add: demo_env_def)
  show ?thesis
    using C10_script_without_lines_fails [OF o h, of None "Some [(''ticker'', [])]" False True
            "[(''ticker'', [])]" 1 0 "[]"]
    by (simp add: k t)
qed

subsection \<open>The reports\<close>

lemma split_on_nonempty: "split_on sep cur s \<noteq> []"
  by (induction sep cur s rule: split_on.induct) auto

lemma split_on_char_two: "c \<in> set s \<Longrightarrow> 2 \<le> length (split_on [c] cur s)"
proof (induction s arbitrary: cur)
  case Nil
  then show ?case by simp
next
  case (Cons x xs)
  show ?case
  proof (cases "x = c")
    case True
    have "split_on [c] [] xs \<noteq> []" by (rule split_on_nonempty)
    then have "1 \<le> length (split_on [c] [] xs)"
      by (cases "split_on [c] [] xs") auto
    then show ?thesis using True by simp
  next
    case False
    then show ?thesis using Cons by simp
  qed
qed

text \<open>
  The index 1 in \<^term>\<open>broken_cmd_of\<close> is in range: a name that contains \<^verbatim>\<open>call_\<close> splits
  into two pieces at least.
\<close>

lemma broken_cmd_index_in_range:
  assumes "py_in ''call_'' nm"
  shows "1 < length (py_split ''_'' nm)"
proof -
  have "sublist ''call_'' nm" using assms by (simp add: py_in_sublist)
  then have "set ''call_'' \<subseteq> set nm" by (rule set_mono_sublist)
  then have "CHR ''_'' \<in> set nm" by auto
  then show ?thesis
    using split_on_char_two [of "CHR ''_''" nm "[]"] by (simp add: py_split_def)
qed

text \<open>
  C9: \<^verbatim>\<open>display_failures\<close> and \<^verbatim>\<open>display_summary\<close> leave the world as it is and
  append to the console a text that depends on their arguments only, not on the state
  in which they are called (it is the text they print on an empty console in any world
  \<open>w\<close>). So rendering the failure report and the summary a second time on the same
  \<^verbatim>\<open>fails\<close> and counts prints the same text again.
\<close>

theorem C9_reports_are_repeatable:
  "world (display_failures env fls s) = world s
   \<and> console (display_failures env fls s)
       = console s @ console (display_failures env fls \<lparr>world = w, console = []\<rparr>)
   \<and> world (display_summary env fls n_successes n_failures seconds s) = world s
   \<and> console (display_summary env fls n_successes n_failures seconds s)
       = console s @ console (display_summary env fls n_successes n_failures seconds
                               \<lparr>world = w, console = []\<rparr>)
   \<and> console (display_summary env fls n_successes n_failures seconds
               (display_failures env fls
                 (display_summary env fls n_successes n_failures seconds
                   (display_failures env fls s))))
       = console s
         @ console (display_summary env fls n_successes n_failures seconds
                     (display_failures env fls \<lparr>world = w, console = []\<rparr>))
         @ console (display_summary env fls n_successes n_failures seconds
                     (display_failures env fls \<lparr>world = w, console = []\<rparr>))"
  by (simp add: display_failures_def display_summary_def console_print_def Let_def)

subsection \<open>Discovery\<close>

lemma collect_loop_openbb:
  "list_all (\<lambda>x. endswith x ''.openbb'') acc \<Longrightarrow>
   list_all (\<lambda>x. endswith x ''.openbb'') (fst (collect_loop env frags acc s))"
proof (induction frags arbitrary: acc s)
  case Nil
  then show ?case by simp
next
  case (Cons p ps)
  have w: "list_all (\<lambda>x. endswith x ''.openbb'') (walk_files ws)" for ws
    by (auto simp: walk_files_def list_all_iff endswith_def suffix_def)
  show ?case
    using Cons.prems by (auto simp: Let_def w intro!: Cons.IH)
qed

text \<open>
  What \<^verbatim>\<open>build_test_path_list\<close> does guarantee, for an iteration of the set that lists
  each of its elements once: the result is sorted, every path in it comes from a
  collected string that ends in \<^verbatim>\<open>.openbb\<close>, it does not depend on the order in which
  the set is iterated, and it has no duplicates as long as no two collected strings
  denote the same path.
\<close>

lemma build_test_path_list_postcondition:
  assumes "distinct (set_iter env (fst (collect_loop env (fragments path_list) [] s)))"
    and "set (set_iter env (fst (collect_loop env (fragments path_list) [] s)))
           = set (fst (collect_loop env (fragments path_list) [] s))"
  shows "sorted (fst (build_test_path_list env path_list s))"
    and "list_all (\<lambda>p. \<exists>x. p = Path_of x \<and> endswith x ''.openbb'')
           (fst (build_test_path_list env path_list s))"
    and "path_list \<noteq> PathStr [] \<Longrightarrow> fst (build_test_path_list env path_list s)
           = sort (map Path_of (remdups (fst (collect_loop env (fragments path_list) [] s))))"
    and "inj_on Path_of (set (fst (collect_loop env (fragments path_list) [] s)))
           \<Longrightarrow> distinct (fst (build_test_path_list env path_list s))"
proof -
  let ?tf = "fst (collect_loop env (fragments path_list) [] s)"
  have r: "fst (build_test_path_list env path_list s)
             = (if path_list = PathStr [] then [] else sort (map Path_of (set_iter env ?tf)))"
    by (simp add: build_test_path_list_def split: prod.splits)
  show "sorted (fst (build_test_path_list env path_list s))"
    by (simp add: r)
  have "list_all (\<lambda>x. endswith x ''.openbb'') ?tf"
    by (rule collect_loop_openbb) simp
  then show "list_all (\<lambda>p. \<exists>x. p = Path_of x \<and> endswith x ''.openbb'')
           (fst (build_test_path_list env path_list s))"
    using assms(2) by (auto simp: r list_all_iff)
  have "mset (set_iter env ?tf) = mset (remdups ?tf)"
    using assms by (simp add: set_eq_iff_mset_eq_distinct [symmetric])
  then have "mset (map Path_of (set_iter env ?tf)) = mset (map Path_of (remdups ?tf))"
    by simp
  then have "sort (map Path_of (set_iter env ?tf)) = sort (map Path_of (remdups ?tf))"
    by (metis mset_sort properties_for_sort sorted_sort)
  then show "path_list \<noteq> PathStr [] \<Longrightarrow> fst (build_test_path_list env path_list s)
           = sort (map Path_of (remdups ?tf))"
    by (simp add: r)
  show "distinct (fst (build_test_path_list env path_list s))"
    if "inj_on Path_of (set ?tf)"
    using that assms by (simp add: r distinct_map)
qed

text \<open>
  C7 does not hold of the code for the fragments \<^verbatim>\<open>//\<close> and \<^verbatim>\<open>/x.openbb\<close> when the
  file \<^verbatim>\<open>/x.openbb\<close> exists: the walk of \<^verbatim>\<open>//\<close> collects the string \<^verbatim>\<open>///x.openbb\<close>,
  the second fragment the string \<^verbatim>\<open>/x.openbb\<close>; they differ, so the set keeps both,
  and both are the path \<^verbatim>\<open>/x.openbb\<close>. The list returned holds this path twice.
\<close>

theorem C7_duplicate_after_path_conversion:
  "fst (collect_loop demo_env [''//'', ''/x.openbb''] []
          \<lparr>world = double_slash_world, console = []\<rparr>) = [''///x.openbb'', ''/x.openbb'']
   \<and> fst (build_test_path_list demo_env (PathList [''//'', ''/x.openbb''])
            \<lparr>world = double_slash_world, console = []\<rparr>)
       = [[''/'', ''x.openbb''], [''/'', ''x.openbb'']]"
  by code_simp

subsection \<open>Positional substitution\<close>


lemma digit_char_digit: "d < 10 \<Longrightarrow> digit_char d \<in> set ''0123456789''"
  unfolding digit_char_def by (rule nth_mem) simp

lemma digit_char_inj: "a < 10 \<Longrightarrow> b < 10 \<Longrightarrow> digit_char a = digit_char b \<Longrightarrow> a = b"
  unfolding digit_char_def
  by (subst (asm) nth_eq_iff_index_eq) simp_all

lemma str_nat_digits: "set (str_nat n) \<subseteq> set ''0123456789''"
proof (induction n rule: str_nat.induct)
  case (1 n)
  show ?case
  proof (cases "n < 10")
    case True
    then show ?thesis
      using digit_char_digit [of n] by (subst str_nat.simps) simp
  next
    case False
    have "n mod 10 < 10" by simp
    then have "digit_char (n mod 10) \<in> set ''0123456789''" by (rule digit_char_digit)
    then show ?thesis
      using False 1 by (subst str_nat.simps) simp
  qed
qed

lemma str_nat_nonempty: "str_nat n \<noteq> []"
  by (subst str_nat.simps) simp

lemma str_nat_inj: "str_nat m = str_nat n \<Longrightarrow> m = n"
proof (induction m arbitrary: n rule: str_nat.induct)
  case (1 m)
  show ?case
  proof (cases "m < 10")
    case True
    then have m: "str_nat m = [digit_char m]" by (subst str_nat.simps) simp
    show ?thesis
    proof (cases "n < 10")
      case n: True
      then have "str_nat n = [digit_char n]" by (subst str_nat.simps) simp
      then show ?thesis using m 1(2) True n digit_char_inj by simp
    next
      case False
      then have "str_nat n = str_nat (n div 10) @ [digit_char (n mod 10)]"
        by (subst str_nat.simps) simp
      then show ?thesis using m 1(2) str_nat_nonempty [of "n div 10"] by simp
    qed
  next
    case False
    then have m: "str_nat m = str_nat (m div 10) @ [digit_char (m mod 10)]"
      by (subst str_nat.simps) simp
    show ?thesis
    proof (cases "n < 10")
      case True
      then have "str_nat n = [digit_char n]" by (subst str_nat.simps) simp
      then show ?thesis using m 1(2) str_nat_nonempty [of "m div 10"] by simp
    next
      case n: False
      then have "str_nat n = str_nat (n div 10) @ [digit_char (n mod 10)]"
        by (subst str_nat.simps) simp
      then have "str_nat (m div 10) = str_nat (n div 10)"
        and d: "digit_char (m mod 10) = digit_char (n mod 10)"
        using m 1(2) by simp_all
      then have "m div 10 = n div 10" using 1(1) False by simp
      moreover have "m mod 10 = n mod 10"
        using d by (intro digit_char_inj) simp_all
      ultimately show ?thesis by (metis div_mult_mod_eq)
    qed
  qed
qed

lemma argv_token_body: "argv_token k = CHR ''$'' # token_body k"
  by (simp add: argv_token_def token_body_def)

lemma token_body_dollar_free: "CHR ''$'' \<notin> set (token_body k)"
  using str_nat_digits [of k] by (auto simp: token_body_def)

lemma bracket_prefix:
  "prefix (a @ [c]) (b @ c # y) \<Longrightarrow> c \<notin> set a \<Longrightarrow> c \<notin> set b \<Longrightarrow> a = b"
proof (induction a arbitrary: b)
  case Nil
  then show ?case by (cases b) auto
next
  case (Cons x a)
  then show ?case by (cases b) auto
qed

lemma argv_token_prefix_inj:
  assumes "prefix (argv_token i) (argv_token k @ y)"
  shows "i = k"
proof -
  have "prefix (str_nat i @ '']'') (str_nat k @ CHR '']'' # y)"
    using assms by (simp add: argv_token_def)
  moreover have "CHR '']'' \<notin> set (str_nat i)" "CHR '']'' \<notin> set (str_nat k)"
    using str_nat_digits [of i] str_nat_digits [of k] by auto
  ultimately have "str_nat i = str_nat k" by (rule bracket_prefix)
  then show ?thesis by (rule str_nat_inj)
qed

lemma replace_from_skip:
  "CHR ''$'' \<notin> set u \<Longrightarrow>
   replace_from (CHR ''$'' # t) new (u @ s) = u @ replace_from (CHR ''$'' # t) new s"
  by (induction u) auto

lemma no_straddle:
  assumes "prefix (CHR ''$'' # t) (x @ CHR ''$'' # r)" and "CHR ''$'' \<notin> set t" and "x \<noteq> []"
  shows "prefix (CHR ''$'' # t) x"
proof -
  from assms(1) consider "prefix (CHR ''$'' # t) x"
    | us where "CHR ''$'' # t = x @ us" "prefix us (CHR ''$'' # r)"
    by (auto simp: prefix_append)
  then show ?thesis
  proof cases
    case 1
    then show ?thesis .
  next
    case 2
    show ?thesis
    proof (cases us)
      case Nil
      then show ?thesis using 2 by simp
    next
      case (Cons u us')
      then have "u = CHR ''$''" using 2(2) by simp
      moreover obtain x' where "x = CHR ''$'' # x'" using 2(1) assms(3) by (cases x) auto
      ultimately have "CHR ''$'' \<in> set t" using 2(1) Cons by auto
      then show ?thesis using assms(2) by simp
    qed
  qed
qed

lemma replace_from_match:
  "old \<noteq> [] \<Longrightarrow> prefix old s \<Longrightarrow>
   replace_from old new s = new @ replace_from old new (drop (length old) s)"
  by (cases s) auto

lemma replace_from_nomatch:
  "\<not> prefix old (c # cs) \<Longrightarrow> replace_from old new (c # cs) = c # replace_from old new cs"
  by simp

text \<open>
  A token has one \<^verbatim>\<open>$\<close>, its first character, so no occurrence of it lies across a
  position where a \<^verbatim>\<open>$\<close> stands: the scan may be cut there.
\<close>

lemma replace_from_split:
  assumes "CHR ''$'' \<notin> set t"
  shows "replace_from (CHR ''$'' # t) new (x @ CHR ''$'' # r)
           = replace_from (CHR ''$'' # t) new x @ replace_from (CHR ''$'' # t) new (CHR ''$'' # r)"
proof (induction "length x" arbitrary: x rule: less_induct)
  case less
  define tok where "tok = CHR ''$'' # t"
  define z where "z = CHR ''$'' # r"
  have tok_ne: "tok \<noteq> []" by (simp add: tok_def)
  have IH: "replace_from tok new (y @ z) = replace_from tok new y @ replace_from tok new z"
    if "length y < length x" for y
    using less [OF that] by (simp add: tok_def z_def)
  have "replace_from tok new (x @ z) = replace_from tok new x @ replace_from tok new z"
  proof (cases x)
    case Nil
    then show ?thesis by simp
  next
    case (Cons c cs)
    show ?thesis
    proof (cases "prefix tok (x @ z)")
      case True
      have "x \<noteq> []" using Cons by simp
      with True assms have px: "prefix tok x"
        unfolding tok_def z_def by (rule no_straddle)
      then have len: "length tok \<le> length x" by (rule prefix_length_le)
      have d: "drop (length tok) (x @ z) = drop (length tok) x @ z"
        using len by simp
      have "length (drop (length tok) x) < length x"
        using Cons tok_ne by (cases tok) auto
      note step = IH [OF this]
      have "replace_from tok new (x @ z) = new @ replace_from tok new (drop (length tok) (x @ z))"
        using tok_ne True by (rule replace_from_match)
      also have "\<dots> = new @ replace_from tok new (drop (length tok) x) @ replace_from tok new z"
        by (simp only: d step)
      also have "\<dots> = replace_from tok new x @ replace_from tok new z"
        using replace_from_match [OF tok_ne px, of new] by (simp only: append_assoc)
      finally show ?thesis .
    next
      case False
      have npx: "\<not> prefix tok x"
      proof
        assume "prefix tok x"
        then have "prefix tok (x @ z)" by (rule prefix_prefix)
        then show False using False by simp
      qed
      have e: "replace_from tok new x = c # replace_from tok new cs"
        using npx unfolding Cons by (rule replace_from_nomatch)
      have "length cs < length x" using Cons by simp
      note step = IH [OF this]
      have "replace_from tok new (x @ z) = c # replace_from tok new (cs @ z)"
        using False unfolding Cons append_Cons by (rule replace_from_nomatch)
      also have "\<dots> = c # replace_from tok new cs @ replace_from tok new z"
        by (simp only: step)
      also have "\<dots> = replace_from tok new x @ replace_from tok new z"
        unfolding e by simp
      finally show ?thesis .
    qed
  qed
  then show ?case by (simp add: tok_def z_def)
qed

lemma replace_token:
  "py_replace (x @ argv_token k @ y) (argv_token i) a
     = py_replace x (argv_token i) a @ (if i = k then a else argv_token k)
         @ py_replace y (argv_token i) a"
proof -
  let ?tok = "CHR ''$'' # token_body i"
  have nf: "CHR ''$'' \<notin> set (token_body i)" by (rule token_body_dollar_free)
  have step: "replace_from ?tok a (argv_token k @ y)
                = (if i = k then a else argv_token k) @ replace_from ?tok a y"
  proof (cases "i = k")
    case True
    then show ?thesis
      using replace_from_prefix [of ?tok a y] by (simp add: argv_token_body)
  next
    case False
    then have "\<not> prefix (argv_token i) (argv_token k @ y)"
      using argv_token_prefix_inj by blast
    then have "replace_from ?tok a (argv_token k @ y)
                 = CHR ''$'' # replace_from ?tok a (token_body k @ y)"
      by (simp add: argv_token_body)
    also have "\<dots> = CHR ''$'' # token_body k @ replace_from ?tok a y"
      using token_body_dollar_free [of k] by (simp add: replace_from_skip)
    finally show ?thesis using False by (simp add: argv_token_body)
  qed
  have "replace_from ?tok a (x @ argv_token k @ y)
          = replace_from ?tok a x @ replace_from ?tok a (argv_token k @ y)"
    using replace_from_split [OF nf, of a x "token_body k @ y"] by (simp add: argv_token_body)
  then show ?thesis
    using step by (simp add: py_replace_def argv_token_body)
qed

lemma argv_subst_keeps_token:
  "k < i \<or> i + length args \<le> k \<Longrightarrow>
   argv_subst i args (x @ argv_token k @ y)
     = argv_subst i args x @ argv_token k @ argv_subst i args y"
  by (induction args arbitrary: i x y) (auto simp: replace_token)

lemma argv_subst_replaces_token:
  "j < length args \<Longrightarrow>
   argv_subst i args (x @ argv_token (i + j) @ y)
     = argv_subst (Suc (i + j)) (drop (Suc j) args)
         (argv_subst i (take (Suc j) args) x @ args ! j
            @ argv_subst i (take (Suc j) args) y)"
proof (induction args arbitrary: i j x y)
  case Nil
  then show ?case by simp
next
  case (Cons a as)
  show ?case
  proof (cases j)
    case 0
    then show ?thesis by (simp add: replace_token)
  next
    case (Suc j')
    then have "j' < length as" using Cons.prems by simp
    from Cons.IH [OF this, of "Suc i"] show ?thesis
      using Suc by (simp add: replace_token)
  qed
qed

lemma replace_render:
  assumes "list_all seg_dollar_free segs"
  shows "py_replace (render segs) (argv_token i) a
           = render (map (\<lambda>s. if s = Tok i then Lit a else s) segs)"
  using assms
proof (induction segs)
  case Nil
  then show ?case by (simp add: py_replace_def argv_token_body)
next
  case (Cons s segs)
  show ?case
  proof (cases s)
    case (Lit t)
    then have "CHR ''$'' \<notin> set t" using Cons.prems by simp
    then have "py_replace (t @ render segs) (argv_token i) a
                 = t @ py_replace (render segs) (argv_token i) a"
      by (simp add: py_replace_def argv_token_body replace_from_skip)
    then show ?thesis using Lit Cons by simp
  next
    case (Tok k)
    have "py_replace ([] @ argv_token k @ render segs) (argv_token i) a
            = py_replace [] (argv_token i) a @ (if i = k then a else argv_token k)
                @ py_replace (render segs) (argv_token i) a"
      by (rule replace_token)
    then show ?thesis using Tok Cons by (simp add: py_replace_def argv_token_body)
  qed
qed

lemma argv_subst_render_from:
  assumes "list_all seg_dollar_free segs" and "list_all (\<lambda>a. CHR ''$'' \<notin> set a) args"
  shows "argv_subst i args (render segs)
           = render (map (\<lambda>s. case s of
                                 Lit t \<Rightarrow> Lit t
                               | Tok k \<Rightarrow> if i \<le> k \<and> k < i + length args
                                           then Lit (args ! (k - i)) else Tok k) segs)"
  using assms
proof (induction args arbitrary: i segs)
  case Nil
  have "map (\<lambda>s. case s of
                   Lit t \<Rightarrow> Lit t
                 | Tok k \<Rightarrow> if i \<le> k \<and> k < i + length ([] :: string list)
                             then Lit ([] ! (k - i)) else Tok k) segs = segs"
    by (rule map_idI) (auto split: seg.splits)
  then show ?case by simp
next
  case (Cons a as)
  let ?f = "\<lambda>s. if s = Tok i then Lit a else s"
  have df: "list_all seg_dollar_free (map ?f segs)"
    using Cons.prems by (auto simp: list_all_iff)
  have "argv_subst i (a # as) (render segs) = argv_subst (Suc i) as (render (map ?f segs))"
    using Cons.prems(1) by (simp add: replace_render)
  also have "\<dots> = render (map (\<lambda>s. case s of
                                 Lit t \<Rightarrow> Lit t
                               | Tok k \<Rightarrow> if Suc i \<le> k \<and> k < Suc i + length as
                                           then Lit (as ! (k - Suc i)) else Tok k) (map ?f segs))"
    using Cons.prems(2) by (intro Cons.IH df) simp
  also have "\<dots> = render (map (\<lambda>s. case s of
                                 Lit t \<Rightarrow> Lit t
                               | Tok k \<Rightarrow> if i \<le> k \<and> k < i + length (a # as)
                                           then Lit ((a # as) ! (k - i)) else Tok k) segs)"
    unfolding map_map
    by (rule arg_cong [where f = render], rule map_cong)
       (auto split: seg.splits simp: nth_Cons')
  finally show ?case .
qed

lemma argv_subst_render:
  assumes "list_all seg_dollar_free segs" and "list_all (\<lambda>a. CHR ''$'' \<notin> set a) args"
  shows "argv_subst 0 args (render segs) = render (map (subst_seg args) segs)"
proof -
  have "(\<lambda>s. case s of Lit t \<Rightarrow> Lit t
              | Tok k \<Rightarrow> if 0 \<le> k \<and> k < 0 + length args then Lit (args ! (k - 0)) else Tok k)
          = subst_seg args"
    by (auto split: seg.splits)
  then show ?thesis
    using argv_subst_render_from [OF assms, of 0] by simp
qed

text \<open>
  C2, as stated, fails: the arguments are substituted one after the other, so a token
  that an argument brings into the line is replaced by a later argument. The line
  \<^verbatim>\<open>$ARGV[0]\<close> with the arguments \<^verbatim>\<open>$ARGV[1]\<close> and \<^verbatim>\<open>x\<close> resolves to \<^verbatim>\<open>x\<close>, and not
  to the argument of index 0.
\<close>

theorem C2_argument_with_token_is_replaced_again:
  "rs_lines replace_dynamic_spec (Some [''$ARGV[1]'', ''x'']) None [render [Tok 0]] = Inr [''x'']
   \<and> render [Tok 0] = ''$ARGV[0]''
   \<and> render (map (subst_seg [''$ARGV[1]'', ''x'']) [Tok 0]) = ''$ARGV[1]''"
  by code_simp

text \<open>
  C2, amended: with a non-empty \<^verbatim>\<open>routines_args\<close> no error is raised and every line is
  rewritten by replacing, for \<open>i = 0, 1, ...\<close> in this order, every occurrence of
  \<^verbatim>\<open>$ARGV[i]\<close> in the line as rewritten so far by the argument of index \<open>i\<close>. An
  occurrence of \<^verbatim>\<open>$ARGV[j]\<close> in the preprocessed line, \<open>j\<close> below the number of
  arguments, is replaced by the argument of index \<open>j\<close> in step \<open>j\<close> (the later steps
  run on the result); a token whose index is at or beyond the number of arguments is
  left in the line unchanged. When the character \<^verbatim>\<open>$\<close> occurs in no argument and in
  the line only as the first character of such tokens, the resolved line is the line
  with every token of an index below the number of arguments replaced by its argument.
\<close>

theorem C2_positional_substitution:
  assumes "args \<noteq> []"
  shows "rs_lines rd (Some args) sa raw_lines = Inr (map (argv_subst 0 args) raw_lines)
       \<and> (j < length args \<longrightarrow>
            argv_subst 0 args (x @ argv_token j @ y)
              = argv_subst (Suc j) (drop (Suc j) args)
                  (argv_subst 0 (take (Suc j) args) x @ args ! j
                     @ argv_subst 0 (take (Suc j) args) y))
       \<and> (length args \<le> k \<longrightarrow>
            argv_subst 0 args (x @ argv_token k @ y)
              = argv_subst 0 args x @ argv_token k @ argv_subst 0 args y)
       \<and> (list_all seg_dollar_free segs \<and> list_all (\<lambda>a. CHR ''$'' \<notin> set a) args \<longrightarrow>
            argv_subst 0 args (render segs) = render (map (subst_seg args) segs))"
proof -
  have "rs_lines rd (Some args) sa raw_lines = Inr (map (argv_subst 0 args) raw_lines)"
    using assms by (cases args) (simp_all add: rs_lines_def)
  moreover have "argv_subst 0 args (x @ argv_token j @ y)
              = argv_subst (Suc j) (drop (Suc j) args)
                  (argv_subst 0 (take (Suc j) args) x @ args ! j
                     @ argv_subst 0 (take (Suc j) args) y)" if "j < length args"
    using argv_subst_replaces_token [OF that, of 0 x y] by simp
  moreover have "argv_subst 0 args (x @ argv_token k @ y)
              = argv_subst 0 args x @ argv_token k @ argv_subst 0 args y" if "length args \<le> k"
    using that by (intro argv_subst_keeps_token) simp
  ultimately show ?thesis
    using argv_subst_render by blast
qed

text \<open>
  C2, amended, at the line \<^verbatim>\<open>BUY $ARGV[0] $ARGV[1]\<close> with the arguments \<^verbatim>\<open>AAPL\<close> and
  \<^verbatim>\<open>10\<close>: the resolved line is \<^verbatim>\<open>BUY AAPL 10\<close>; in \<^verbatim>\<open>BUY $ARGV[0] $ARGV[5]\<close> the
  token of index 5 stays.
\<close>

theorem C2_positional_substitution_witness:
  "rs_lines replace_dynamic_spec (Some [''AAPL'', ''10'']) None [''BUY $ARGV[0] $ARGV[1]'']
     = Inr [''BUY AAPL 10'']
   \<and> argv_subst 0 [''AAPL'', ''10''] ''BUY $ARGV[0] $ARGV[5]'' = ''BUY AAPL $ARGV[5]''"
proof -
  let ?args = "[''AAPL'', ''10'']"
  let ?segs = "[Lit ''BUY '', Tok 0, Lit '' '', Tok 1]"
  let ?segs5 = "[Lit ''BUY '', Tok 0, Lit '' '', Tok 5]"
  have ne: "?args \<noteq> []" by simp
  have r: "render ?segs = ''BUY $ARGV[0] $ARGV[1]''"
    by code_simp
  have r': "render (map (subst_seg ?args) ?segs) = ''BUY AAPL 10''"
    by code_simp
  have q: "render ?segs5 = ''BUY $ARGV[0] $ARGV[5]''"
    by code_simp
  have q': "render (map (subst_seg ?args) ?segs5) = ''BUY AAPL $ARGV[5]''"
    by code_simp
  have h: "list_all seg_dollar_free ?segs \<and> list_all (\<lambda>a. CHR ''$'' \<notin> set a) ?args"
    by simp
  have h5: "list_all seg_dollar_free ?segs5 \<and> list_all (\<lambda>a. CHR ''$'' \<notin> set a) ?args"
    by simp
  note T = C2_positional_substitution [OF ne]
  have "argv_subst 0 ?args (render ?segs) = render (map (subst_seg ?args) ?segs)"
    using T [where segs = ?segs] h by blast
  then have a: "argv_subst 0 ?args ''BUY $ARGV[0] $ARGV[1]'' = ''BUY AAPL 10''"
    unfolding r r' .
  have "argv_subst 0 ?args (render ?segs5) = render (map (subst_seg ?args) ?segs5)"
    using T [where segs = ?segs5] h5 by blast
  then have b: "argv_subst 0 ?args ''BUY $ARGV[0] $ARGV[5]'' = ''BUY AAPL $ARGV[5]''"
    unfolding q q' .
  have c: "rs_lines replace_dynamic_spec (Some ?args) None [''BUY $ARGV[0] $ARGV[1]'']
             = Inr (map (argv_subst 0 ?args) [''BUY $ARGV[0] $ARGV[1]''])"
    by (rule T [THEN conjunct1])
  show ?thesis
    unfolding c list.map a by (simp only: b simp_thms)
qed

subsection \<open>Named substitution\<close>

lemma try_default_None:
  "(\<And>j. 1 \<le> j \<Longrightarrow> j \<le> n \<Longrightarrow> \<not> (start + j < length run \<and> run ! (start + j) = CHR ''}''))
   \<Longrightarrow> try_default run start n = None"
proof (induction n)
  case 0
  then show ?case by simp
next
  case (Suc n)
  have "\<not> (start + Suc n < length run \<and> run ! (start + Suc n) = CHR ''}'')"
    using Suc.prems [of "Suc n"] by simp
  moreover have "try_default run start n = None"
    using Suc.prems by (intro Suc.IH) auto
  ultimately show ?case by simp
qed

lemma try_default_Some:
  assumes "1 \<le> j" and "j \<le> n" and "start + j < length run" and "run ! (start + j) = CHR ''}''"
    and "\<And>j'. j < j' \<Longrightarrow> j' \<le> n \<Longrightarrow> \<not> (start + j' < length run \<and> run ! (start + j') = CHR ''}'')"
  shows "try_default run start n = Some j"
  using assms
proof (induction n)
  case 0
  then show ?case by simp
next
  case (Suc n)
  show ?case
  proof (cases "j = Suc n")
    case True
    then show ?thesis using Suc.prems by simp
  next
    case False
    then have "j \<le> n" using Suc.prems by simp
    moreover have "\<not> (start + Suc n < length run \<and> run ! (start + Suc n) = CHR ''}'')"
      using Suc.prems(5) [of "Suc n"] False Suc.prems(2) by simp
    ultimately show ?thesis
      using Suc by simp
  qed
qed

lemma try_key_Some:
  assumes "1 \<le> p" and "p \<le> m" and "p < length run" and "run ! p = CHR ''=''"
    and "try_default run (Suc p) (length run - Suc p) = Some q"
    and "\<And>p'. p < p' \<Longrightarrow> p' \<le> m \<Longrightarrow> p' < length run \<Longrightarrow> run ! p' = CHR ''='' \<Longrightarrow>
           try_default run (Suc p') (length run - Suc p') = None"
  shows "try_key run m = Some (p, q)"
  using assms
proof (induction m)
  case 0
  then show ?case by simp
next
  case (Suc m)
  show ?case
  proof (cases "p = Suc m")
    case True
    then show ?thesis using Suc.prems by simp
  next
    case False
    then have le: "p \<le> m" and lt: "p < Suc m" using Suc.prems by simp_all
    have IH: "try_key run m = Some (p, q)"
      using Suc.prems le by (intro Suc.IH) auto
    show ?thesis
    proof (cases "Suc m < length run \<and> run ! Suc m = CHR ''=''")
      case True
      then have "try_default run (Suc (Suc m)) (length run - Suc (Suc m)) = None"
        using Suc.prems(6) [of "Suc m"] lt by simp
      then show ?thesis using True IH by simp
    next
      case False
      then show ?thesis using IH by auto
    qed
  qed
qed

text \<open>
  The run behind \<^verbatim>\<open>${\<close> of a well-formed placeholder: key, \<^verbatim>\<open>=\<close>, default,
  \<^verbatim>\<open>}\<close> and a tail without a further \<^verbatim>\<open>}\<close>. The matcher gives back characters
  until the groups are the key and the default.
\<close>

lemma placeholder_match:
  assumes k: "k \<noteq> []" "CHR ''='' \<notin> set k"
    and d: "d \<noteq> []" "CHR ''='' \<notin> set d" "CHR ''}'' \<notin> set d"
    and t: "CHR ''}'' \<notin> set tail"
  shows "try_key (k @ CHR ''='' # d @ CHR ''}'' # tail) (length (k @ CHR ''='' # d @ CHR ''}'' # tail))
           = Some (length k, length d)"
proof -
  let ?run = "k @ CHR ''='' # d @ CHR ''}'' # tail"
  let ?lk = "length k" and ?ld = "length d"
  have at: "?run ! idx =
      (if idx < ?lk then k ! idx
       else if idx = ?lk then CHR ''=''
       else if idx \<le> ?lk + ?ld then d ! (idx - ?lk - 1)
       else if idx = ?lk + ?ld + 1 then CHR ''}''
       else tail ! (idx - ?lk - ?ld - 2))" for idx
    by (auto simp: nth_append nth_Cons' )
  have brace: "?run ! idx = CHR ''}'' \<longleftrightarrow> idx = ?lk + ?ld + 1"
    if "?lk < idx" "idx < length ?run" for idx
  proof (cases "idx \<le> ?lk + ?ld")
    case True
    then have "?run ! idx = d ! (idx - ?lk - 1)" "idx - ?lk - 1 < ?ld"
      using that by (simp_all add: at)
    then show ?thesis using d(3) True by (metis nth_mem add_le_same_cancel1 not_one_le_zero)
  next
    case False
    show ?thesis
    proof (cases "idx = ?lk + ?ld + 1")
      case True
      then show ?thesis by (simp add: at)
    next
      case f: False
      then have "?run ! idx = tail ! (idx - ?lk - ?ld - 2)" "idx - ?lk - ?ld - 2 < length tail"
        using False that by (simp_all add: at)
      then show ?thesis using t f by (metis nth_mem)
    qed
  qed
  have eq: "?run ! idx = CHR ''='' \<Longrightarrow> idx < length ?run \<Longrightarrow> idx = ?lk \<or> ?lk + ?ld + 1 < idx" for idx
  proof -
    assume a: "?run ! idx = CHR ''=''" "idx < length ?run"
    show ?thesis
    proof (rule ccontr)
      assume n: "\<not> (idx = ?lk \<or> ?lk + ?ld + 1 < idx)"
      then consider "idx < ?lk" | "?lk < idx" "idx \<le> ?lk + ?ld" | "idx = ?lk + ?ld + 1"
        by linarith
      then show False
      proof cases
        case 1
        then have "k ! idx = CHR ''=''" using a by (simp add: at)
        then show False using k(2) 1 by (metis nth_mem)
      next
        case 2
        then have "d ! (idx - ?lk - 1) = CHR ''=''" "idx - ?lk - 1 < ?ld"
          using a by (simp_all add: at)
        then show False using d(2) by (metis nth_mem)
      next
        case 3
        then show False using a by (simp add: at)
      qed
    qed
  qed
  have dflt: "try_default ?run (Suc ?lk) (length ?run - Suc ?lk) = Some ?ld"
  proof (rule try_default_Some)
    show "1 \<le> ?ld" using d(1) by (cases d) auto
    show "?ld \<le> length ?run - Suc ?lk" by simp
    show "Suc ?lk + ?ld < length ?run" by simp
    show "?run ! (Suc ?lk + ?ld) = CHR ''}''" by (simp add: at)
    show "\<not> (Suc ?lk + j' < length ?run \<and> ?run ! (Suc ?lk + j') = CHR ''}'')"
      if "?ld < j'" "j' \<le> length ?run - Suc ?lk" for j'
      using brace [of "Suc ?lk + j'"] that by auto
  qed
  show ?thesis
  proof (rule try_key_Some [OF _ _ _ _ dflt])
    show "1 \<le> ?lk" using k(1) by (cases k) auto
    show "?lk \<le> length ?run" by simp
    show "?lk < length ?run" by simp
    show "?run ! ?lk = CHR ''=''" by (simp add: at)
    show "try_default ?run (Suc p') (length ?run - Suc p') = None"
      if "?lk < p'" "p' \<le> length ?run" "p' < length ?run" "?run ! p' = CHR ''=''" for p'
    proof (rule try_default_None)
      fix j assume j: "1 \<le> j" "j \<le> length ?run - Suc p'"
      have "?lk + ?ld + 1 < p'" using eq [OF that(4) that(3)] that(1) by simp
      then show "\<not> (Suc p' + j < length ?run \<and> ?run ! (Suc p' + j) = CHR ''}'')"
        using brace [of "Suc p' + j"] by auto
    qed
  qed
qed


lemma ph_match_placeholder:
  assumes "k \<noteq> []" "d \<noteq> []"
    and "set k \<inter> {CHR ''{'', CHR ''='', CHR ''}''} = {}"
    and "set d \<inter> {CHR ''{'', CHR ''='', CHR ''}''} = {}"
    and "CHR ''}'' \<notin> set (takeWhile (\<lambda>c. c \<noteq> CHR ''{'') rest)"
  shows "ph_match (''${'' @ k @ ''='' @ d @ ''}'' @ rest) = Some (length k, length d)"
proof -
  let ?tail = "takeWhile (\<lambda>c. c \<noteq> CHR ''{'') rest"
  have "takeWhile (\<lambda>c. c \<noteq> CHR ''{'') ((k @ CHR ''='' # d @ [CHR ''}'']) @ rest)
          = (k @ CHR ''='' # d @ [CHR ''}'']) @ ?tail"
    using assms(3,4) by (intro takeWhile_append2) auto
  then have run: "takeWhile (\<lambda>c. c \<noteq> CHR ''{'') (k @ CHR ''='' # d @ CHR ''}'' # rest)
          = k @ CHR ''='' # d @ CHR ''}'' # ?tail"
    by simp
  have "try_key (k @ CHR ''='' # d @ CHR ''}'' # ?tail)
          (length (k @ CHR ''='' # d @ CHR ''}'' # ?tail)) = Some (length k, length d)"
    using assms by (intro placeholder_match) auto
  then show ?thesis
    unfolding ph_match_def by (simp add: run Let_def del: length_append)
qed

lemma render_ph_tail:
  "list_all pseg_ok r \<Longrightarrow> CHR ''}'' \<notin> set (takeWhile (\<lambda>c. c \<noteq> CHR ''{'') (render_ph r))"
proof (induction r)
  case Nil
  then show ?case by simp
next
  case (Cons s r)
  show ?case
  proof (cases s)
    case (PLit t)
    then have "CHR ''}'' \<notin> set t" using Cons.prems by simp
    moreover have "CHR ''}'' \<notin> set (takeWhile (\<lambda>c. c \<noteq> CHR ''{'') (render_ph r))"
      using Cons by simp
    ultimately show ?thesis
      using PLit by (auto simp: takeWhile_append dest: set_takeWhileD)
  next
    case (Ph k d)
    then show ?thesis by simp
  qed
qed

lemma re_sub_skip:
  "CHR ''$'' \<notin> set u \<Longrightarrow>
   re_sub f (u @ s) = (case re_sub f s of Inl e \<Rightarrow> Inl e | Inr rest \<Rightarrow> Inr (u @ rest))"
  by (induction u) (auto simp: ph_match_def split: sum.splits list.splits)

lemma re_sub_match:
  "ph_match (c # cs) = Some (m, n) \<Longrightarrow>
   re_sub f (c # cs)
     = (case f (take (m + n + 4) (c # cs)) of
          Inl e \<Rightarrow> Inl e
        | Inr r \<Rightarrow> (case re_sub f (drop (m + n + 4) (c # cs)) of
                      Inl e \<Rightarrow> Inl e
                    | Inr rest \<Rightarrow> Inr (r @ rest)))"
  by simp

lemma replace_dynamic_spec_placeholder:
  assumes "CHR ''='' \<notin> set k"
  shows "replace_dynamic_spec (''${'' @ k @ ''='' @ d @ ''}'') sa = Inr (lookup_or_default sa k d)"
proof -
  have b: "butlast (k @ CHR ''='' # d @ ''}'') = k @ CHR ''='' # d"
    by (simp add: butlast_append)
  have "takeWhile (\<lambda>c. c \<noteq> CHR ''='') (k @ CHR ''='' # d)
          = k @ takeWhile (\<lambda>c. c \<noteq> CHR ''='') (CHR ''='' # d)"
    using assms by (intro takeWhile_append2) auto
  then have t: "takeWhile (\<lambda>c. c \<noteq> CHR ''='') (k @ CHR ''='' # d) = k"
    by simp
  show ?thesis
    by (simp add: replace_dynamic_spec_def Let_def b t)
qed

lemma re_sub_render_ph:
  assumes "list_all pseg_ok segs"
  shows "re_sub (\<lambda>x. replace_dynamic_spec x sa) (render_ph segs)
           = Inr (concat (map (resolve_pseg sa) segs))"
  using assms
proof (induction segs)
  case Nil
  then show ?case by simp
next
  case (Cons s segs)
  then have IH: "re_sub (\<lambda>x. replace_dynamic_spec x sa) (render_ph segs)
                   = Inr (concat (map (resolve_pseg sa) segs))"
    by simp
  show ?case
  proof (cases s)
    case (PLit t)
    then have "CHR ''$'' \<notin> set t" using Cons.prems by simp
    then show ?thesis using PLit IH by (simp add: re_sub_skip)
  next
    case (Ph k d)
    let ?ph = "''${'' @ k @ ''='' @ d @ ''}''"
    have ok: "k \<noteq> []" "d \<noteq> []" "set k \<inter> {CHR ''{'', CHR ''='', CHR ''}''} = {}"
      "set d \<inter> {CHR ''{'', CHR ''='', CHR ''}''} = {}"
      using Cons.prems Ph by simp_all
    have tail: "CHR ''}'' \<notin> set (takeWhile (\<lambda>c. c \<noteq> CHR ''{'') (render_ph segs))"
      using Cons.prems by (intro render_ph_tail) simp
    have m: "ph_match (?ph @ render_ph segs) = Some (length k, length d)"
      using ph_match_placeholder [OF ok tail] by simp
    have len: "length k + length d + 4 = length ?ph"
      by simp
    have tk: "take (length k + length d + 4) (?ph @ render_ph segs) = ?ph"
      unfolding len by (rule append_eq_conv_conj [THEN iffD1, THEN conjunct1, symmetric]) (rule refl)
    have dr: "drop (length k + length d + 4) (?ph @ render_ph segs) = render_ph segs"
      unfolding len by (rule append_eq_conv_conj [THEN iffD1, THEN conjunct2, symmetric]) (rule refl)
    have rd: "replace_dynamic_spec ?ph sa = Inr (lookup_or_default sa k d)"
      using ok(3) by (intro replace_dynamic_spec_placeholder) auto
    obtain c cs where ccs: "?ph @ render_ph segs = c # cs" by simp
    have "re_sub (\<lambda>x. replace_dynamic_spec x sa) (?ph @ render_ph segs)
            = Inr (lookup_or_default sa k d @ concat (map (resolve_pseg sa) segs))"
      using re_sub_match [of c cs "length k" "length d" "\<lambda>x. replace_dynamic_spec x sa"] m
      unfolding ccs [symmetric] tk dr rd IH by simp
    then show ?thesis using Ph by simp
  qed
qed

lemma map_result_re_sub:
  assumes "list_all (list_all pseg_ok) lines"
  shows "map_result (re_sub (\<lambda>x. replace_dynamic_spec x sa)) (map render_ph lines)
           = Inr (map (\<lambda>segs. concat (map (resolve_pseg sa) segs)) lines)"
  using assms by (induction lines) (simp_all add: re_sub_render_ph)

text \<open>
  What the code does on well-formed lines: when \<^verbatim>\<open>routines_args\<close> is empty and
  \<^verbatim>\<open>special_arguments\<close> is a non-empty mapping, no error is raised and, in every line
  that is made of text without \<^verbatim>\<open>$\<close> and \<^verbatim>\<open>}\<close> and of placeholders
  \<^verbatim>\<open>${key=default}\<close> whose key and default are not empty and contain none of \<^verbatim>\<open>{\<close>,
  \<^verbatim>\<open>=\<close>, \<^verbatim>\<open>}\<close>, every placeholder is replaced by the value of its key in
  \<^verbatim>\<open>special_arguments\<close> if that value is present and not empty, and by its default
  otherwise; the text between the placeholders stays.
\<close>

lemma named_substitution_well_formed:
  assumes "special_arguments \<noteq> []"
    and "routines_args = None \<or> routines_args = Some []"
    and "list_all (list_all pseg_ok) lines"
  shows "rs_lines replace_dynamic_spec routines_args (Some special_arguments)
           (map render_ph lines)
         = Inr (map (\<lambda>segs. concat (map (resolve_pseg special_arguments) segs)) lines)"
proof -
  obtain kv kvs where "special_arguments = kv # kvs"
    using assms(1) by (cases special_arguments) auto
  then show ?thesis
    using assms(2) map_result_re_sub [OF assms(3), of special_arguments]
    by (auto simp: rs_lines_def)
qed

text \<open>
  The line \<^verbatim>\<open>price ${ticker=GME}\<close>: with an empty value for \<^verbatim>\<open>ticker\<close> the resolved
  line is \<^verbatim>\<open>price GME\<close>, with the value \<^verbatim>\<open>TSLA\<close> it is \<^verbatim>\<open>price TSLA\<close>.
\<close>

lemma named_substitution_example:
  "rs_lines replace_dynamic_spec None (Some [(''ticker'', [])]) [''price ${ticker=GME}'']
     = Inr [''price GME'']
   \<and> rs_lines replace_dynamic_spec None (Some [(''ticker'', ''TSLA'')]) [''price ${ticker=GME}'']
     = Inr [''price TSLA'']"
proof -
  let ?lines = "[[PLit ''price '', Ph ''ticker'' ''GME'']]"
  have ok: "list_all (list_all pseg_ok) ?lines"
    by simp
  have r: "map render_ph ?lines = [''price ${ticker=GME}'']"
    by simp
  have a: "map (\<lambda>segs. concat (map (resolve_pseg [(''ticker'', [])]) segs)) ?lines = [''price GME'']"
    by (simp add: lookup_or_default_def)
  have b: "map (\<lambda>segs. concat (map (resolve_pseg [(''ticker'', ''TSLA'')]) segs)) ?lines
             = [''price TSLA'']"
    by (simp add: lookup_or_default_def)
  have "rs_lines replace_dynamic_spec None (Some [(''ticker'', [])]) (map render_ph ?lines)
          = Inr (map (\<lambda>segs. concat (map (resolve_pseg [(''ticker'', [])]) segs)) ?lines)"
    by (rule named_substitution_well_formed [OF _ _ ok]) simp_all
  moreover
  have "rs_lines replace_dynamic_spec None (Some [(''ticker'', ''TSLA'')]) (map render_ph ?lines)
          = Inr (map (\<lambda>segs. concat (map (resolve_pseg [(''ticker'', ''TSLA'')]) segs)) ?lines)"
    by (rule named_substitution_well_formed [OF _ _ ok]) simp_all
  ultimately show ?thesis
    unfolding r a b by simp
qed

text \<open>
  C3 does not hold of the code for the line \<^verbatim>\<open>price ${ticker=GME} }\<close> with the value
  \<^verbatim>\<open>TSLA\<close> for \<^verbatim>\<open>ticker\<close>: the second group \<^verbatim>\<open>[^{]+\<close> of the pattern runs over the
  closing brace of the placeholder up to the last \<^verbatim>\<open>}\<close> before the next \<^verbatim>\<open>{\<close>, so the
  match is \<^verbatim>\<open>${ticker=GME} }\<close> (a key of 6 and a default of 5 characters) and the text
  behind the placeholder is replaced with it. The line resolves to \<^verbatim>\<open>price TSLA\<close>;
  replacing the occurrence \<^verbatim>\<open>${ticker=GME}\<close> by the value gives \<^verbatim>\<open>price TSLA }\<close>.
\<close>

theorem C3_match_runs_to_last_closing_brace:
  "ph_match ''${ticker=GME} }'' = Some (6, 5)
   \<and> rs_lines replace_dynamic_spec None (Some [(''ticker'', ''TSLA'')])
        [render_ph [PLit ''price '', Ph ''ticker'' ''GME'', PLit '' }'']] = Inr [''price TSLA'']
   \<and> render_ph [PLit ''price '', Ph ''ticker'' ''GME'', PLit '' }''] = ''price ${ticker=GME} }''
   \<and> concat (map (resolve_pseg [(''ticker'', ''TSLA'')])
               [PLit ''price '', Ph ''ticker'' ''GME'', PLit '' }''])
       = ''price TSLA }''"
  by code_simp

end
